theory Spec2Isabelle
  imports Main
begin

section \<open>SeaBattle.py: errors\<close>

text \<open>
  The exception classes of the module. \<open>ShipMoveError\<close>, \<open>IndexBoardError\<close> and
  \<open>ShootError\<close> derive from \<open>SeaBattleError\<close>; \<open>ValueError\<close> and \<open>IndexError\<close> are
  the Python built-ins that the code can raise (unpacking, \<open>int\<close>, \<open>randint\<close> on an
  empty range, list indexing) and that are outside the game's taxonomy.
\<close>

datatype error = ShipMoveError | IndexBoardError | ShootError | ValueError | IndexError

fun is_SeaBattleError :: "error \<Rightarrow> bool" where
  "is_SeaBattleError ShipMoveError = True"
| "is_SeaBattleError IndexBoardError = True"
| "is_SeaBattleError ShootError = True"
| "is_SeaBattleError ValueError = False"
| "is_SeaBattleError IndexError = False"

section \<open>Cell and Ship\<close>

text \<open>
  A \<open>Ship\<close> object: \<open>_length\<close>, \<open>_tp\<close> (1 is horizontal, anything else vertical),
  the start coordinate \<open>_x\<close>, \<open>_y\<close>, the movement flag \<open>_is_move\<close> and the list
  \<open>_cells\<close>. A \<open>Cell\<close> holds its \<open>_value\<close> (True while intact) and a reference
  to the ship that built it; here a cell is the boolean at its index in the list of its
  ship, so the owner of a cell is the ship whose list holds it.

  The constructor leaves \<open>_x\<close> and \<open>_y\<close> at \<open>None\<close> unless they are passed;
  \<open>Board._placement_ship\<close> calls \<open>set_start_coords\<close> before anything reads them, so
  the record holds integers and the constructor takes the two coordinates.
\<close>

record ship =
  s_length :: int
  s_tp :: int
  s_x :: int
  s_y :: int
  s_is_move :: bool
  s_cells :: "bool list"

definition Ship :: "int \<Rightarrow> int \<Rightarrow> int \<Rightarrow> int \<Rightarrow> ship" where
  "Ship len tp0 x0 y0 =
     \<lparr> s_length = len, s_tp = tp0, s_x = x0, s_y = y0, s_is_move = True,
       s_cells = replicate (nat len) True \<rparr>"

definition set_start_coords :: "ship \<Rightarrow> int \<Rightarrow> int \<Rightarrow> ship" where
  "set_start_coords s x0 y0 = s\<lparr> s_x := x0, s_y := y0 \<rparr>"

definition get_start_coords :: "ship \<Rightarrow> int \<times> int" where
  "get_start_coords s = (s_x s, s_y s)"

definition get_finish_coords :: "ship \<Rightarrow> int \<times> int" where
  "get_finish_coords s =
     (let (width, height) = (if s_tp s = 1 then (s_length s, 1) else (1, s_length s))
      in (s_x s + width, s_y s + height))"

definition hurt :: "ship \<Rightarrow> ship" where
  "hurt s = (if s_is_move s then s\<lparr> s_is_move := False \<rparr> else s)"

text \<open>\<open>Cell.hit\<close> on the cell at index \<open>i\<close> of the ship: the cell becomes struck, then
  the owning ship is told (\<open>hurt\<close>).\<close>

definition cell_hit :: "ship \<Rightarrow> nat \<Rightarrow> ship" where
  "cell_hit s i = hurt (s\<lparr> s_cells := (s_cells s)[i := False] \<rparr>)"

definition move :: "ship \<Rightarrow> int \<Rightarrow> error + ship" where
  "move s direction =
     (if \<not> s_is_move s then Inl ShipMoveError
      else if s_tp s = 1 then Inr (s\<lparr> s_x := s_x s + direction \<rparr>)
      else Inr (s\<lparr> s_y := s_y s + direction \<rparr>))"

definition is_collide :: "ship \<Rightarrow> ship \<Rightarrow> bool" where
  "is_collide s other =
     (let (x2, y2) = get_finish_coords s;
          (x1_ship, y1_ship) = get_start_coords other;
          (x2_ship, y2_ship) = get_finish_coords other
      in s_x s \<le> x2_ship \<and> x2 \<ge> x1_ship \<and> s_y s \<le> y2_ship \<and> y2 \<ge> y1_ship)"

definition is_out_board :: "ship \<Rightarrow> int \<Rightarrow> bool" where
  "is_out_board s sz =
     (let (x1, y1) = get_start_coords s; (x2, y2) = get_finish_coords s
      in list_ex (\<lambda>p. \<not> (0 \<le> p \<and> p < sz)) [x1, y1, x2, y2])"

text \<open>\<open>Ship.__bool__\<close>: some cell is still intact.\<close>

definition ship_alive :: "ship \<Rightarrow> bool" where
  "ship_alive s = list_ex (\<lambda>c. c) (s_cells s)"

text \<open>The closed bounding box of a ship, from its start to its finish coordinate on
  each axis.\<close>

definition closed_box :: "ship \<Rightarrow> (int \<times> int) set" where
  "closed_box s =
     {fst (get_start_coords s) .. fst (get_finish_coords s)} \<times>
     {snd (get_start_coords s) .. snd (get_finish_coords s)}"

section \<open>Board\<close>

text \<open>
  A \<open>Board\<close> object: \<open>_size\<close> and the list \<open>_ships\<close>. The objects of the list are
  told apart by identity (the classes define no \<open>__eq__\<close>); the identity of a ship of
  the board is its index in \<open>_ships\<close>.
\<close>

record board =
  b_size :: int
  b_ships :: "ship list"

text \<open>
  \<open>Board._check_location_ship\<close>. The argument \<open>me\<close> is the identity of the ship that
  is checked: its index in \<open>_ships\<close>, or \<open>None\<close> when the ship is not in the list yet
  (during placement), so that \<open>other != ship\<close> is \<open>Some j \<noteq> me\<close>.
\<close>

definition check_location_ship :: "board \<Rightarrow> ship \<Rightarrow> nat option \<Rightarrow> bool" where
  "check_location_ship b s me =
     (is_out_board s (b_size b) \<or>
      list_ex (\<lambda>j. Some j \<noteq> me \<and> is_collide s (b_ships b ! j)) [0..<length (b_ships b)])"

text \<open>
  \<open>Board._placement_ship\<close>. The loop draws \<open>randint(0, size - 1)\<close> twice per round;
  the draws are the list \<open>rs\<close> of pairs, read from the front. \<open>randint\<close> raises
  \<open>ValueError\<close> on an empty range. When the draws run out the loop has not returned:
  the result is \<open>None\<close>. On success the function gives the board and the unread draws.
\<close>

fun placement_ship ::
  "board \<Rightarrow> ship \<Rightarrow> (int \<times> int) list \<Rightarrow> (error + board \<times> (int \<times> int) list) option" where
  "placement_ship b s [] = (if b_size b - 1 < 0 then Some (Inl ValueError) else None)"
| "placement_ship b s ((x0, y0) # rs) =
     (if b_size b - 1 < 0 then Some (Inl ValueError)
      else let s' = set_start_coords s x0 y0 in
        if \<not> check_location_ship b s' None
        then Some (Inr (b\<lparr> b_ships := b_ships b @ [s'] \<rparr>, rs))
        else placement_ship b s' rs)"

definition NUMS_SHIPS :: "(int \<times> nat) list" where
  "NUMS_SHIPS = [(4, 1), (3, 2), (2, 3), (1, 4)]"

text \<open>
  The list comprehension of \<open>Board.create\<close>: one ship per entry of the fleet table, in
  order, each with \<open>tp = randint(1, 2)\<close>. The draws of \<open>randint(1, 2)\<close> are the coin
  \<open>coin\<close>, by the position of the ship in the comprehension: 1 when the coin shows
  True, 2 otherwise. The ships are built without coordinates; the record holds 0 until
  placement overwrites it.
\<close>

definition fleet_lengths :: "int list" where
  "fleet_lengths = concat (map (\<lambda>(len, nums). replicate nums len) NUMS_SHIPS)"

definition randint_1_2 :: "bool \<Rightarrow> int" where
  "randint_1_2 c = (if c then 1 else 2)"

definition new_ships :: "(nat \<Rightarrow> bool) \<Rightarrow> ship list" where
  "new_ships coin =
     map (\<lambda>(i, len). Ship len (randint_1_2 (coin i)) 0 0) (enumerate 0 fleet_lengths)"

fun place_all ::
  "board \<Rightarrow> ship list \<Rightarrow> (int \<times> int) list \<Rightarrow> (error + board \<times> (int \<times> int) list) option" where
  "place_all b [] rs = Some (Inr (b, rs))"
| "place_all b (s # ss) rs =
     (case placement_ship b s rs of
        None \<Rightarrow> None
      | Some (Inl e) \<Rightarrow> Some (Inl e)
      | Some (Inr (b', rs')) \<Rightarrow> place_all b' ss rs')"

definition create ::
  "board \<Rightarrow> (nat \<Rightarrow> bool) \<Rightarrow> (int \<times> int) list \<Rightarrow> (error + board \<times> (int \<times> int) list) option" where
  "create b coin rs = place_all b (new_ships coin) rs"

text \<open>\<open>Board.__init__\<close>: the size, the empty fleet, then \<open>create\<close>.\<close>

definition Board_init ::
  "int \<Rightarrow> (nat \<Rightarrow> bool) \<Rightarrow> (int \<times> int) list \<Rightarrow> (error + board \<times> (int \<times> int) list) option" where
  "Board_init sz coin rs = create \<lparr> b_size = sz, b_ships = [] \<rparr> coin rs"

subsection \<open>The grid view\<close>

text \<open>
  An entry of the grid that \<open>get_board\<close> builds: the background marker \<open>'*'\<close>, or a
  reference to a \<open>Cell\<close> object, given by the index of its ship in \<open>_ships\<close> and its
  index in the ship's \<open>_cells\<close>.
\<close>

datatype square = Star | CellRef nat nat

text \<open>Python list indexing: an index from \<open>-n\<close> to \<open>n - 1\<close> is valid, a negative one
  counts from the end, anything else raises \<open>IndexError\<close>.\<close>

definition py_index :: "int \<Rightarrow> nat \<Rightarrow> nat option" where
  "py_index i n =
     (if 0 \<le> i \<and> i < int n then Some (nat i)
      else if - int n \<le> i \<and> i < 0 then Some (nat (int n + i))
      else None)"

text \<open>\<open>res[y][x] = v\<close>\<close>

definition set_square :: "square list list \<Rightarrow> int \<Rightarrow> int \<Rightarrow> square \<Rightarrow> error + square list list" where
  "set_square res y x v =
     (case py_index y (length res) of
        None \<Rightarrow> Inl IndexError
      | Some r \<Rightarrow>
          (case py_index x (length (res ! r)) of
             None \<Rightarrow> Inl IndexError
           | Some c \<Rightarrow> Inr (res[r := (res ! r)[c := v]])))"

text \<open>\<open>res[y][x]\<close>\<close>

definition get_square :: "square list list \<Rightarrow> int \<Rightarrow> int \<Rightarrow> error + square" where
  "get_square res y x =
     (case py_index y (length res) of
        None \<Rightarrow> Inl IndexError
      | Some r \<Rightarrow>
          (case py_index x (length (res ! r)) of
             None \<Rightarrow> Inl IndexError
           | Some c \<Rightarrow> Inr (res ! r ! c)))"

text \<open>The coordinates the two nested \<open>range\<close> loops of \<open>get_board\<close> visit for one ship,
  as (row, column) pairs in the order of the loops.\<close>

definition ship_squares :: "ship \<Rightarrow> (int \<times> int) list" where
  "ship_squares s =
     (let (x1, y1) = get_start_coords s; (x2, y2) = get_finish_coords s
      in concat (map (\<lambda>y. map (\<lambda>x. (y, x)) [x1 .. x2 - 1]) [y1 .. y2 - 1]))"

text \<open>The body of the loops for the ship of index \<open>k\<close>: \<open>res[y][x] = ship[i]\<close>, then
  \<open>i += 1\<close>. \<open>ship[i]\<close> is read first and raises \<open>IndexError\<close> past the cells.\<close>

fun fill_ship ::
  "nat \<Rightarrow> ship \<Rightarrow> (int \<times> int) list \<Rightarrow> nat \<Rightarrow> square list list \<Rightarrow> error + square list list" where
  "fill_ship k s [] i res = Inr res"
| "fill_ship k s ((y, x) # ps) i res =
     (if length (s_cells s) \<le> i then Inl IndexError
      else case set_square res y x (CellRef k i) of
        Inl e \<Rightarrow> Inl e
      | Inr res' \<Rightarrow> fill_ship k s ps (i + 1) res')"

fun fill_ships :: "nat \<Rightarrow> ship list \<Rightarrow> square list list \<Rightarrow> error + square list list" where
  "fill_ships k [] res = Inr res"
| "fill_ships k (s # ss) res =
     (case fill_ship k s (ship_squares s) 0 res of
        Inl e \<Rightarrow> Inl e
      | Inr res' \<Rightarrow> fill_ships (k + 1) ss res')"

definition get_board :: "board \<Rightarrow> error + square list list" where
  "get_board b =
     fill_ships 0 (b_ships b) (replicate (nat (b_size b)) (replicate (nat (b_size b)) Star))"

subsection \<open>Moving the fleet\<close>

text \<open>\<open>Board._move_ship\<close> on the ship of index \<open>k\<close>. The result pairs what the call
  returns or raises with the board as the call leaves it.\<close>

definition move_ship :: "nat \<Rightarrow> int \<Rightarrow> board \<Rightarrow> (error + unit) \<times> board" where
  "move_ship k direction b =
     (case move (b_ships b ! k) direction of
        Inl e \<Rightarrow> (Inl e, b)
      | Inr s' \<Rightarrow>
          (let b' = b\<lparr> b_ships := (b_ships b)[k := s'] \<rparr>
           in if check_location_ship b' s' (Some k) then (Inl ShipMoveError, b')
              else (Inr (), b')))"

text \<open>
  \<open>DefenderMoveShip\<close> around a body: the constructor records the start coordinate of
  the ship of index \<open>k\<close>; \<open>__exit__\<close> puts it back when the body raised, and lets the
  exception through.
\<close>

definition DefenderMoveShip ::
  "nat \<Rightarrow> (board \<Rightarrow> (error + 'a) \<times> board) \<Rightarrow> board \<Rightarrow> (error + 'a) \<times> board" where
  "DefenderMoveShip k body b =
     (let (x0, y0) = get_start_coords (b_ships b ! k)
      in case body b of
           (Inl e, b') \<Rightarrow>
             (Inl e, b'\<lparr> b_ships := (b_ships b')[k := set_start_coords (b_ships b' ! k) x0 y0] \<rparr>)
         | (Inr v, b') \<Rightarrow> (Inr v, b'))"

text \<open>\<open>choice((1, -1))\<close>, by a coin.\<close>

definition choice_direction :: "bool \<Rightarrow> int" where
  "choice_direction c = (if c then 1 else - 1)"

text \<open>The body of the loop of \<open>Board.move_ships\<close> for the ship of index \<open>k\<close>, with the
  direction drawn. An exception that is not a \<open>SeaBattleError\<close> is not caught.\<close>

definition move_one :: "nat \<Rightarrow> int \<Rightarrow> board \<Rightarrow> (error + unit) \<times> board" where
  "move_one k direction b =
     (case DefenderMoveShip k (move_ship k direction) b of
        (Inr u, b1) \<Rightarrow> (Inr (), b1)
      | (Inl e, b1) \<Rightarrow>
          if \<not> is_SeaBattleError e then (Inl e, b1)
          else (case DefenderMoveShip k (move_ship k (- direction)) b1 of
                  (Inr u, b2) \<Rightarrow> (Inr (), b2)
                | (Inl e2, b2) \<Rightarrow>
                    if \<not> is_SeaBattleError e2 then (Inl e2, b2) else (Inr (), b2)))"

fun move_ships_loop :: "nat list \<Rightarrow> (nat \<Rightarrow> bool) \<Rightarrow> board \<Rightarrow> (error + unit) \<times> board" where
  "move_ships_loop [] coin b = (Inr (), b)"
| "move_ships_loop (k # ks) coin b =
     (case move_one k (choice_direction (coin k)) b of
        (Inl e, b') \<Rightarrow> (Inl e, b')
      | (Inr u, b') \<Rightarrow> move_ships_loop ks coin b')"

text \<open>\<open>Board.move_ships\<close>: the ships in the order of the list; \<open>coin k\<close> is the draw
  for the ship of index \<open>k\<close>.\<close>

definition move_ships :: "(nat \<Rightarrow> bool) \<Rightarrow> board \<Rightarrow> (error + unit) \<times> board" where
  "move_ships coin b = move_ships_loop [0..<length (b_ships b)] coin b"

subsection \<open>Shots\<close>

text \<open>What \<open>Board.hit\<close> prints: \<open>Ranen\<close> (wounded), \<open>Ubit\<close> (sunk), \<open>Mimo\<close> (miss).\<close>

datatype report = Ranen | Ubit | Mimo

text \<open>\<open>Board.__bool__\<close>\<close>

definition board_alive :: "board \<Rightarrow> bool" where
  "board_alive b = list_ex ship_alive (b_ships b)"

text \<open>\<open>Board.hit(y, x)\<close>: the value returned with the message printed, or the exception,
  and the board as the call leaves it.\<close>

definition hit :: "board \<Rightarrow> int \<Rightarrow> int \<Rightarrow> (error + bool \<times> report) \<times> board" where
  "hit b y x =
     (if list_ex (\<lambda>p. \<not> (0 \<le> p \<and> p < b_size b)) [x, y] then (Inl IndexBoardError, b)
      else case get_board b of
        Inl e \<Rightarrow> (Inl e, b)
      | Inr g \<Rightarrow>
          (case get_square g y x of
             Inl e \<Rightarrow> (Inl e, b)
           | Inr (CellRef k i) \<Rightarrow>
               if \<not> s_cells (b_ships b ! k) ! i then (Inl ShootError, b)
               else (let b' = b\<lparr> b_ships := (b_ships b)[k := cell_hit (b_ships b ! k) i] \<rparr>
                     in (Inr (True, if ship_alive (b_ships b' ! k) then Ranen else Ubit), b'))
           | Inr Star \<Rightarrow> (Inr (False, Mimo), b)))"

section \<open>Players\<close>

subsection \<open>Results of a shot, and the computer\<close>

text \<open>What a \<open>shoot\<close> method returns: the boolean of \<open>Board.hit\<close>, or \<open>None\<close> when the method
  ends without a \<open>return\<close>.\<close>

datatype pyval = PyNone | PyBool bool

text \<open>The truth value Python gives to it (\<open>not\<close> in \<open>SeaBattle.start\<close>).\<close>

fun truthy :: "pyval \<Rightarrow> bool" where
  "truthy PyNone = False"
| "truthy (PyBool v) = v"

text \<open>A recursive call \<open>self.shoot(player)\<close> as a statement: an exception of the call goes
  through, its value is dropped and the caller returns \<open>None\<close>.\<close>

definition drop_result ::
  "((error + pyval) \<times> 'st) option \<Rightarrow> ((error + pyval) \<times> 'st) option" where
  "drop_result r =
     (case r of
        None \<Rightarrow> None
      | Some (Inl e, st) \<Rightarrow> Some (Inl e, st)
      | Some (Inr v, st) \<Rightarrow> Some (Inr PyNone, st))"

text \<open>\<open>AI.shoot\<close> at the board of the other player. The pairs of \<open>randint(0, 9)\<close> draws are
  read from the front of \<open>rs\<close>; \<open>None\<close> when they run out before the method returns. The
  first draw is passed to \<open>hit\<close> as the row. Only \<open>ShootError\<close> is caught.\<close>

fun AI_shoot ::
  "board \<Rightarrow> (int \<times> int) list \<Rightarrow> ((error + pyval) \<times> board \<times> (int \<times> int) list) option" where
  "AI_shoot b [] = None"
| "AI_shoot b ((x, y) # rs) =
     (case hit b x y of
        (Inr (res, msg), b') \<Rightarrow> Some (Inr (PyBool res), b', rs)
      | (Inl e, b') \<Rightarrow>
          if e = ShootError then drop_result (AI_shoot b' rs)
          else Some (Inl e, b', rs))"

subsection \<open>Strings and the tables of Python\<close>

text \<open>
  A character of a Python string is a Unicode code point, here a natural number, and a
  string is the list of its code points. \<open>ascii_str\<close> gives the string of an ASCII literal.
\<close>

definition ascii_str :: "string \<Rightarrow> nat list" where
  "ascii_str s = map of_char s"

text \<open>\<open>string.ascii_uppercase\<close>\<close>

definition ascii_uppercase :: "nat list" where
  "ascii_uppercase = ascii_str ''ABCDEFGHIJKLMNOPQRSTUVWXYZ''"

text \<open>The lower case letters of ASCII, in the same order.\<close>

definition ascii_lowercase :: "nat list" where
  "ascii_lowercase = ascii_str ''abcdefghijklmnopqrstuvwxyz''"

text \<open>The digits of ASCII.\<close>

definition digits :: "nat list" where
  "digits = ascii_str ''0123456789''"

text \<open>
  What \<open>str.upper\<close>, \<open>str.isdigit\<close> and \<open>int\<close> do with a code point past ASCII is given by
  the tables of the Python interpreter, which are not part of the program; they are a
  parameter. \<open>to_upper c\<close> is the upper case form of \<open>c\<close>, of one or more code points;
  \<open>is_digit c\<close> says whether \<open>isdigit\<close> holds of the one-character string of \<open>c\<close>;
  \<open>decimal c\<close> is the value \<open>int\<close> gives that string, \<open>None\<close> when \<open>int\<close> raises
  \<open>ValueError\<close>. On ASCII the three functions are written out below.
\<close>

record unicode_tables =
  to_upper :: "nat \<Rightarrow> nat list"
  is_digit :: "nat \<Rightarrow> bool"
  decimal :: "nat \<Rightarrow> int option"

text \<open>\<open>str.index\<close> with a one-character argument: the first position, \<open>ValueError\<close> when
  absent.\<close>

fun str_index :: "nat list \<Rightarrow> nat \<Rightarrow> error + int" where
  "str_index [] c = Inl ValueError"
| "str_index (d # ds) c =
     (if d = c then Inr 0
      else case str_index ds c of Inl e \<Rightarrow> Inl e | Inr i \<Rightarrow> Inr (i + 1))"

text \<open>The upper case form of an ASCII character: a lower case letter becomes the upper
  case letter of the same position, any other character stays.\<close>

definition ascii_upper :: "nat \<Rightarrow> nat" where
  "ascii_upper c =
     (case str_index ascii_lowercase c of
        Inl e \<Rightarrow> c
      | Inr i \<Rightarrow> ascii_uppercase ! nat i)"

text \<open>\<open>str.upper\<close>: the upper case forms of the characters, one after the other.\<close>

definition char_upper :: "unicode_tables \<Rightarrow> nat \<Rightarrow> nat list" where
  "char_upper U c = (if c < 128 then [ascii_upper c] else to_upper U c)"

definition upper :: "unicode_tables \<Rightarrow> nat list \<Rightarrow> nat list" where
  "upper U s = concat (map (char_upper U) s)"

text \<open>\<open>str.isdigit\<close> of a one-character string.\<close>

definition isdigit :: "unicode_tables \<Rightarrow> nat \<Rightarrow> bool" where
  "isdigit U c \<longleftrightarrow> (if c < 128 then c \<in> set digits else is_digit U c)"

text \<open>\<open>int\<close> of a one-character string.\<close>

definition py_int :: "unicode_tables \<Rightarrow> nat \<Rightarrow> error + int" where
  "py_int U c =
     (if c < 128 then str_index digits c
      else case decimal U c of None \<Rightarrow> Inl ValueError | Some v \<Rightarrow> Inr v)"

subsection \<open>The human player\<close>

text \<open>The \<open>try\<close> block of \<open>Human.shoot\<close> up to the arguments of \<open>hit\<close>: the line read is put
  in upper case and unpacked into exactly two characters \<open>y, x\<close> (\<open>ValueError\<close> for any
  other length); then the test on \<open>y\<close> and \<open>x\<close>, and the row and column passed to \<open>hit\<close>.\<close>

definition parse_shot :: "unicode_tables \<Rightarrow> nat list \<Rightarrow> error + int \<times> int" where
  "parse_shot U line =
     (case upper U line of
        [y, x] \<Rightarrow>
          if y \<notin> set ascii_uppercase \<or> \<not> isdigit U x then Inl ValueError
          else (case str_index ascii_uppercase y of
                  Inl e \<Rightarrow> Inl e
                | Inr row \<Rightarrow>
                    (case py_int U x of
                       Inl e \<Rightarrow> Inl e
                     | Inr v \<Rightarrow> Inr (row, v - 1)))
      | _ \<Rightarrow> Inl ValueError)"

text \<open>\<open>Human.shoot\<close> at the board of the other player. The console lines are read from the
  front of the list; \<open>None\<close> when they run out before the method returns. \<open>ValueError\<close>,
  \<open>IndexBoardError\<close> and \<open>ShootError\<close> are caught, and the method then calls itself and
  drops the value.\<close>

fun Human_shoot ::
  "unicode_tables \<Rightarrow> board \<Rightarrow> nat list list \<Rightarrow>
     ((error + pyval) \<times> board \<times> nat list list) option" where
  "Human_shoot U b [] = None"
| "Human_shoot U b (line # ls) =
     (case parse_shot U line of
        Inl e \<Rightarrow>
          if e = ValueError then drop_result (Human_shoot U b ls)
          else Some (Inl e, b, ls)
      | Inr (row, col) \<Rightarrow>
          (case hit b row col of
             (Inr (res, msg), b') \<Rightarrow> Some (Inr (PyBool res), b', ls)
           | (Inl e, b') \<Rightarrow>
               if e = ValueError \<or> e = IndexBoardError \<or> e = ShootError
               then drop_result (Human_shoot U b' ls)
               else Some (Inl e, b', ls)))"

section \<open>The game controller\<close>

text \<open>The two player objects of \<open>SeaBattle\<close>.\<close>

datatype player = Human | AI

text \<open>The state of a \<open>SeaBattle\<close> from the first statement of \<open>start\<close> on: the boards of the
  two players and \<open>_turn\<close>; with it the console lines not read yet, the tables of the
  interpreter that reads them, the draws of the computer's shots not made yet, and the
  coins of the calls of \<open>Board.move_ships\<close> (\<open>g_coins g i\<close> for the call number \<open>i\<close>,
  \<open>g_moves\<close> counting the calls made).\<close>

record sea_battle =
  g_human :: board
  g_ai :: board
  g_turn :: player
  g_input :: "nat list list"
  g_tables :: unicode_tables
  g_draws :: "(int \<times> int) list"
  g_coins :: "nat \<Rightarrow> nat \<Rightarrow> bool"
  g_moves :: nat

text \<open>\<open>SeaBattle._move_ships\<close>: the board of the computer, then the board of the human.\<close>

definition SeaBattle_move_ships :: "sea_battle \<Rightarrow> (error + unit) \<times> sea_battle" where
  "SeaBattle_move_ships g =
     (case move_ships (g_coins g (g_moves g)) (g_ai g) of
        (Inl e, b1) \<Rightarrow> (Inl e, g\<lparr> g_ai := b1, g_moves := g_moves g + 1 \<rparr>)
      | (Inr u, b1) \<Rightarrow>
          (case move_ships (g_coins g (g_moves g + 1)) (g_human g) of
             (Inl e, b2) \<Rightarrow> (Inl e, g\<lparr> g_human := b2, g_ai := b1, g_moves := g_moves g + 2 \<rparr>)
           | (Inr u2, b2) \<Rightarrow> (Inr (), g\<lparr> g_human := b2, g_ai := b1, g_moves := g_moves g + 2 \<rparr>)))"

text \<open>\<open>SeaBattle._player_turn\<close>: the player shoots at the board of the other one.\<close>

definition player_turn :: "sea_battle \<Rightarrow> player \<Rightarrow> ((error + pyval) \<times> sea_battle) option" where
  "player_turn g p =
     (case p of
        Human \<Rightarrow>
          (case Human_shoot (g_tables g) (g_ai g) (g_input g) of
             None \<Rightarrow> None
           | Some (r, b, ls) \<Rightarrow> Some (r, g\<lparr> g_ai := b, g_input := ls \<rparr>))
      | AI \<Rightarrow>
          (case AI_shoot (g_human g) (g_draws g) of
             None \<Rightarrow> None
           | Some (r, b, rs) \<Rightarrow> Some (r, g\<lparr> g_human := b, g_draws := rs \<rparr>)))"

text \<open>\<open>SeaBattle._change_turn\<close>\<close>

definition change_turn :: "sea_battle \<Rightarrow> (error + unit) \<times> sea_battle" where
  "change_turn g =
     (if g_turn g = Human then (Inr (), g\<lparr> g_turn := AI \<rparr>)
      else SeaBattle_move_ships (g\<lparr> g_turn := Human \<rparr>))"

text \<open>The body of the loop of \<open>SeaBattle.start\<close>.\<close>

definition loop_body :: "sea_battle \<Rightarrow> ((error + unit) \<times> sea_battle) option" where
  "loop_body g =
     (case player_turn g (g_turn g) of
        None \<Rightarrow> None
      | Some (Inl e, g') \<Rightarrow> Some (Inl e, g')
      | Some (Inr v, g') \<Rightarrow> if \<not> truthy v then Some (change_turn g') else Some (Inr (), g'))"

text \<open>\<open>SeaBattle.__bool__\<close>\<close>

definition game_alive :: "sea_battle \<Rightarrow> bool" where
  "game_alive g \<longleftrightarrow> board_alive (g_human g) \<and> board_alive (g_ai g)"

text \<open>The loop of \<open>SeaBattle.start\<close> with the winner it announces; \<open>n\<close> bounds the number of
  rounds, and the result is \<open>None\<close> when the loop has not ended within them.\<close>

fun start_loop :: "nat \<Rightarrow> sea_battle \<Rightarrow> ((error + player) \<times> sea_battle) option" where
  "start_loop n g =
     (if game_alive g then
        (case n of
           0 \<Rightarrow> None
         | Suc m \<Rightarrow>
             (case loop_body g of
                None \<Rightarrow> None
              | Some (Inl e, g') \<Rightarrow> Some (Inl e, g')
              | Some (Inr u, g') \<Rightarrow> start_loop m g'))
      else Some (Inr (if \<not> board_alive (g_ai g) then Human else AI), g))"

text \<open>\<open>SeaBattle.start\<close>\<close>

definition start :: "nat \<Rightarrow> sea_battle \<Rightarrow> ((error + player) \<times> sea_battle) option" where
  "start n g = start_loop n (g\<lparr> g_turn := Human \<rparr>)"

section \<open>Properties of boards and games\<close>

text \<open>No ship of the board is out of the board by \<open>is_out_board\<close>, and no two ships
  of different index collide by \<open>is_collide\<close>.\<close>

definition fleet_ok :: "board \<Rightarrow> bool" where
  "fleet_ok b \<longleftrightarrow>
     (\<forall>i<length (b_ships b).
        \<not> is_out_board (b_ships b ! i) (b_size b) \<and>
        (\<forall>j<length (b_ships b). i \<noteq> j \<longrightarrow> \<not> is_collide (b_ships b ! i) (b_ships b ! j)))"

text \<open>What the constructor and \<open>Cell.hit\<close> keep true of a ship: one cell per unit of a
  positive length, and no struck cell while the movement flag is set.\<close>

definition ship_wf :: "ship \<Rightarrow> bool" where
  "ship_wf s \<longleftrightarrow>
     1 \<le> s_length s \<and> length (s_cells s) = nat (s_length s) \<and>
     (s_is_move s \<longrightarrow> list_all (\<lambda>c. c) (s_cells s))"

definition all_wf :: "board \<Rightarrow> bool" where
  "all_wf b \<longleftrightarrow> (\<forall>i<length (b_ships b). ship_wf (b_ships b ! i))"

text \<open>The second board differs from the first in start coordinates only, and only of
  ships whose movement flag is set.\<close>

definition moved_only :: "board \<Rightarrow> board \<Rightarrow> bool" where
  "moved_only b b' \<longleftrightarrow>
     b_size b' = b_size b \<and> length (b_ships b') = length (b_ships b) \<and>
     (\<forall>j<length (b_ships b).
        s_length (b_ships b' ! j) = s_length (b_ships b ! j) \<and>
        s_tp (b_ships b' ! j) = s_tp (b_ships b ! j) \<and>
        s_is_move (b_ships b' ! j) = s_is_move (b_ships b ! j) \<and>
        s_cells (b_ships b' ! j) = s_cells (b_ships b ! j) \<and>
        (\<not> s_is_move (b_ships b ! j) \<longrightarrow> b_ships b' ! j = b_ships b ! j))"

text \<open>The boards a game can hold: what a constructor call returns, and what
  \<open>move_ships\<close> and \<open>hit\<close> leave, whether they return or raise.\<close>

inductive reachable :: "board \<Rightarrow> bool" where
  after_init: "Board_init sz coin rs = Some (Inr (b, rs')) \<Longrightarrow> reachable b"
| after_move_ships: "reachable b \<Longrightarrow> move_ships coin b = (r, b') \<Longrightarrow> reachable b'"
| after_hit: "reachable b \<Longrightarrow> hit b y x = (r, b') \<Longrightarrow> reachable b'"

text \<open>A call on a board by the game: \<open>move_ships\<close> with its coin, or \<open>hit\<close>. The callers
  catch what \<open>hit\<close> raises and go on with the board as the call left it.\<close>

datatype op = Op_move_ships "nat \<Rightarrow> bool" | Op_hit int int

fun apply_op :: "op \<Rightarrow> board \<Rightarrow> board" where
  "apply_op (Op_move_ships coin) b = snd (move_ships coin b)"
| "apply_op (Op_hit y x) b = snd (hit b y x)"

definition apply_ops :: "op list \<Rightarrow> board \<Rightarrow> board" where
  "apply_ops ops b = fold apply_op ops b"

text \<open>A grid of \<open>n\<close> rows of \<open>n\<close> entries.\<close>

definition grid_dims :: "nat \<Rightarrow> square list list \<Rightarrow> bool" where
  "grid_dims n res \<longleftrightarrow> length res = n \<and> (\<forall>r<n. length (res ! r) = n)"

text \<open>Every coordinate of the list is a square of the grid of \<open>n\<close> rows and columns.\<close>

definition in_grid :: "nat \<Rightarrow> (int \<times> int) list \<Rightarrow> bool" where
  "in_grid n ps \<longleftrightarrow> (\<forall>p\<in>set ps. 0 \<le> fst p \<and> fst p < int n \<and> 0 \<le> snd p \<and> snd p < int n)"

text \<open>The player that is not the given one.\<close>

fun other_player :: "player \<Rightarrow> player" where
  "other_player Human = AI"
| "other_player AI = Human"

section \<open>Sample boards and games\<close>

text \<open>Draws for a board of size 10 with every ship horizontal: the first draw puts the
  ship of length 4 out of the board and the sixth collides, so the loop of
  \<open>_placement_ship\<close> runs again for them.\<close>

definition demo_draws :: "(int \<times> int) list" where
  "demo_draws =
     [(8, 0), (0, 0), (5, 0), (0, 2), (4, 2), (2, 0), (7, 2), (0, 4), (3, 4), (5, 4), (7, 4), (0, 6)]"

definition demo_board :: board where
  "demo_board = \<lparr> b_size = 10, b_ships =
     [Ship 4 1 0 0, Ship 3 1 5 0, Ship 3 1 0 2, Ship 2 1 4 2, Ship 2 1 7 2,
      Ship 2 1 0 4, Ship 1 1 3 4, Ship 1 1 5 4, Ship 1 1 7 4, Ship 1 1 0 6] \<rparr>"

text \<open>The sample board after the shot at row 0, column 0.\<close>

definition demo_board_hit :: board where
  "demo_board_hit = snd (hit demo_board 0 0)"

text \<open>A body for the guard that strikes cell 0 of ship 0 and then raises.\<close>

definition demo_body :: "board \<Rightarrow> (error + unit) \<times> board" where
  "demo_body b = (Inl ShootError, b\<lparr> b_ships := (b_ships b)[0 := cell_hit (b_ships b ! 0) 0] \<rparr>)"

text \<open>The board of size 10 whose only ship has length 1 and start (3,3), with orientation
  \<open>t\<close>.\<close>

definition one_ship_board :: "int \<Rightarrow> board" where
  "one_ship_board t = \<lparr> b_size = 10, b_ships = [Ship 1 t 3 3] \<rparr>"

text \<open>Three entries of the tables of Python: the upper case form of U+0131 (305) is
  \<open>I\<close> and that of U+017F (383) is \<open>S\<close>, and U+0663 (1635) is a digit of value 3. The
  other code points past ASCII are left as they are and taken for no digit; the sample
  lines below hold none of them.\<close>

definition sample_tables :: unicode_tables where
  "sample_tables =
     \<lparr> to_upper = (\<lambda>c. if c = 305 then [73] else if c = 383 then [83] else [c]),
       is_digit = (\<lambda>c. c = 1635),
       decimal = (\<lambda>c. if c = 1635 then Some 3 else None) \<rparr>"

text \<open>A game on two sample boards with the human to play and the given lines on the console.\<close>

definition demo_game :: "nat list list \<Rightarrow> sea_battle" where
  "demo_game ls =
     \<lparr> g_human = demo_board, g_ai = demo_board, g_turn = Human, g_input = ls,
       g_tables = sample_tables, g_draws = [], g_coins = (\<lambda>_ _. True), g_moves = 0 \<rparr>"

section \<open>Geometry of the collision test\<close>

lemma get_finish_coords_simps:
  "fst (get_finish_coords s) = s_x s + (if s_tp s = 1 then s_length s else 1)"
  "snd (get_finish_coords s) = s_y s + (if s_tp s = 1 then 1 else s_length s)"
  by (simp_all add: get_finish_coords_def)

lemma is_collide_iff:
  "is_collide s other \<longleftrightarrow>
     s_x s \<le> fst (get_finish_coords other) \<and> s_x other \<le> fst (get_finish_coords s) \<and>
     s_y s \<le> snd (get_finish_coords other) \<and> s_y other \<le> snd (get_finish_coords s)"
  by (auto simp: is_collide_def get_start_coords_def split: prod.splits)

lemma is_out_board_iff:
  "is_out_board s sz \<longleftrightarrow>
     \<not> (0 \<le> s_x s \<and> s_x s < sz \<and> 0 \<le> s_y s \<and> s_y s < sz \<and>
        0 \<le> fst (get_finish_coords s) \<and> fst (get_finish_coords s) < sz \<and>
        0 \<le> snd (get_finish_coords s) \<and> snd (get_finish_coords s) < sz)"
  by (auto simp: is_out_board_def get_start_coords_def split: prod.splits)

lemma intervals_meet:
  fixes a b c d :: int
  assumes "a \<le> b" and "c \<le> d"
  shows "{a..b} \<inter> {c..d} \<noteq> {} \<longleftrightarrow> a \<le> d \<and> c \<le> b"
  using assms by auto

text \<open>
  C7. For two ships whose lengths are not negative (ships are built with lengths 1 to 4),
  \<open>is_collide\<close> is true exactly when the closed boxes from start to finish share a
  point, the finish being the start plus (length, 1) for \<open>tp = 1\<close> and plus (1, length)
  otherwise; a horizontal ship of length 4 at (0,0) has finish (4,1) and is not out of a board
  of size 10, and a horizontal ship of length 2 at (2,0) collides with it.
\<close>

theorem is_collide_closed_boxes:
  "0 \<le> s_length s \<Longrightarrow> 0 \<le> s_length other \<Longrightarrow>
     (is_collide s other \<longleftrightarrow> closed_box s \<inter> closed_box other \<noteq> {}) \<and>
     get_finish_coords s =
       (if s_tp s = 1 then (s_x s + s_length s, s_y s + 1) else (s_x s + 1, s_y s + s_length s)) \<and>
     get_finish_coords (Ship 4 1 0 0) = (4, 1) \<and>
     \<not> is_out_board (Ship 4 1 0 0) 10 \<and>
     is_collide (Ship 2 1 2 0) (Ship 4 1 0 0)"
proof -
  assume ls: "0 \<le> s_length s" and lo: "0 \<le> s_length other"
  have xs: "s_x s \<le> fst (get_finish_coords s)" "s_y s \<le> snd (get_finish_coords s)"
    using ls by (simp_all add: get_finish_coords_simps)
  have xo: "s_x other \<le> fst (get_finish_coords other)"
    "s_y other \<le> snd (get_finish_coords other)"
    using lo by (simp_all add: get_finish_coords_simps)
  have "closed_box s \<inter> closed_box other \<noteq> {} \<longleftrightarrow>
      {s_x s .. fst (get_finish_coords s)} \<inter> {s_x other .. fst (get_finish_coords other)} \<noteq> {} \<and>
      {s_y s .. snd (get_finish_coords s)} \<inter> {s_y other .. snd (get_finish_coords other)} \<noteq> {}"
    unfolding closed_box_def get_start_coords_def fst_conv snd_conv Times_Int_Times
    by blast
  also have "\<dots> \<longleftrightarrow> is_collide s other"
    unfolding is_collide_iff intervals_meet [OF xs(1) xo(1)] intervals_meet [OF xs(2) xo(2)]
    by blast
  finally have a: "is_collide s other \<longleftrightarrow> closed_box s \<inter> closed_box other \<noteq> {}" by simp
  have b: "get_finish_coords (Ship 4 1 0 0) = (4, 1)"
    by (simp add: get_finish_coords_def Ship_def)
  have c: "\<not> is_out_board (Ship 4 1 0 0) 10"
    by (simp add: is_out_board_iff get_finish_coords_simps Ship_def)
  have d: "is_collide (Ship 2 1 2 0) (Ship 4 1 0 0)"
    by (simp add: is_collide_iff get_finish_coords_simps Ship_def)
  have f: "get_finish_coords s =
      (if s_tp s = 1 then (s_x s + s_length s, s_y s + 1) else (s_x s + 1, s_y s + s_length s))"
    by (simp add: get_finish_coords_def)
  from a f b c d show ?thesis by blast
qed

theorem is_collide_closed_boxes_witness:
  "is_collide (Ship 2 1 2 0) (Ship 4 1 0 0) \<and>
   closed_box (Ship 2 1 2 0) \<inter> closed_box (Ship 4 1 0 0) \<noteq> {} \<and>
   \<not> is_collide (Ship 2 1 6 0) (Ship 4 1 0 0) \<and>
   closed_box (Ship 2 1 6 0) \<inter> closed_box (Ship 4 1 0 0) = {}"
proof -
  have l: "0 \<le> s_length (Ship 2 1 2 0)" "0 \<le> s_length (Ship 2 1 6 0)"
    "0 \<le> s_length (Ship 4 1 0 0)"
    by (simp_all add: Ship_def)
  have n: "\<not> is_collide (Ship 2 1 6 0) (Ship 4 1 0 0)"
    by (simp add: is_collide_iff get_finish_coords_simps Ship_def)
  from is_collide_closed_boxes [OF l(1) l(3)] is_collide_closed_boxes [OF l(2) l(3)] n
  show ?thesis by blast
qed

section \<open>Placement, movement and shots keep the fleet apart and inside the board\<close>

lemma is_collide_sym: "is_collide s other = is_collide other s"
  by (auto simp: is_collide_iff)

lemma list_ex_upt: "list_ex P [0..<n] \<longleftrightarrow> (\<exists>j<n. P j)"
  by (auto simp: list_ex_iff)

lemma check_location_ship_iff:
  "check_location_ship b s me \<longleftrightarrow>
     is_out_board s (b_size b) \<or>
     (\<exists>j<length (b_ships b). Some j \<noteq> me \<and> is_collide s (b_ships b ! j))"
  by (simp add: check_location_ship_def list_ex_upt)

lemma set_start_coords_twice [simp]:
  "set_start_coords (set_start_coords s a c) x0 y0 = set_start_coords s x0 y0"
  by (simp add: set_start_coords_def)

lemma placement_ship_Inr:
  "placement_ship b s rs = Some (Inr (b', rs')) \<Longrightarrow>
     \<exists>x0 y0. b' = b\<lparr> b_ships := b_ships b @ [set_start_coords s x0 y0] \<rparr> \<and>
       \<not> check_location_ship b (set_start_coords s x0 y0) None"
proof (induction rs arbitrary: s)
  case Nil
  then show ?case by (simp split: if_splits)
next
  case (Cons r rs)
  obtain x0 y0 where r: "r = (x0, y0)" by (cases r)
  show ?case
  proof (cases "check_location_ship b (set_start_coords s x0 y0) None")
    case True
    with Cons.prems r have "placement_ship b (set_start_coords s x0 y0) rs = Some (Inr (b', rs'))"
      by (simp split: if_splits)
    from Cons.IH [OF this] show ?thesis by simp
  next
    case False
    with Cons.prems r show ?thesis by (auto split: if_splits)
  qed
qed

lemma fleet_ok_append:
  assumes "fleet_ok b" and "\<not> check_location_ship b s None"
  shows "fleet_ok (b\<lparr> b_ships := b_ships b @ [s] \<rparr>)"
proof -
  from assms(2) have out: "\<not> is_out_board s (b_size b)"
    and col: "\<And>j. j < length (b_ships b) \<Longrightarrow> \<not> is_collide s (b_ships b ! j)"
    by (auto simp: check_location_ship_iff)
  show ?thesis
    unfolding fleet_ok_def
  proof (intro allI impI conjI)
    fix i assume "i < length (b_ships (b\<lparr>b_ships := b_ships b @ [s]\<rparr>))"
    then have i: "i < length (b_ships b) \<or> i = length (b_ships b)" by auto
    then show "\<not> is_out_board (b_ships (b\<lparr>b_ships := b_ships b @ [s]\<rparr>) ! i)
        (b_size (b\<lparr>b_ships := b_ships b @ [s]\<rparr>))"
      using assms(1) out by (auto simp: fleet_ok_def nth_append)
    fix j assume "j < length (b_ships (b\<lparr>b_ships := b_ships b @ [s]\<rparr>))" and ij: "i \<noteq> j"
    then have j: "j < length (b_ships b) \<or> j = length (b_ships b)" by auto
    show "\<not> is_collide (b_ships (b\<lparr>b_ships := b_ships b @ [s]\<rparr>) ! i)
        (b_ships (b\<lparr>b_ships := b_ships b @ [s]\<rparr>) ! j)"
      using i j ij assms(1) col is_collide_sym [of s]
      by (auto simp: fleet_ok_def nth_append)
  qed
qed

lemma move_Inr:
  "move s d = Inr s' \<Longrightarrow>
     s_is_move s \<and> s' = (if s_tp s = 1 then s\<lparr> s_x := s_x s + d \<rparr> else s\<lparr> s_y := s_y s + d \<rparr>)"
  by (auto simp: move_def split: if_splits)

lemma move_Inl: "move s d = Inl e \<Longrightarrow> e = ShipMoveError \<and> \<not> s_is_move s"
  by (auto simp: move_def split: if_splits)

lemma restore_after_move:
  "move s d = Inr s' \<Longrightarrow> set_start_coords s' (s_x s) (s_y s) = s"
  by (auto simp: set_start_coords_def dest!: move_Inr split: if_splits)

lemma restore_same: "set_start_coords s (s_x s) (s_y s) = s"
  by (simp add: set_start_coords_def)

lemma list_update_restore:
  "set_start_coords s' (s_x (xs ! k)) (s_y (xs ! k)) = xs ! k \<Longrightarrow>
     (xs[k := s'])[k := set_start_coords ((xs[k := s']) ! k) (s_x (xs ! k)) (s_y (xs ! k))] = xs"
  by (cases "k < length xs") (simp_all add: restore_same list_update_beyond)

lemma guarded_move_cases:
  assumes "DefenderMoveShip k (move_ship k d) b = (r, b')"
  shows "(r = Inl ShipMoveError \<and> b' = b) \<or>
         (r = Inr () \<and> (\<exists>s'. move (b_ships b ! k) d = Inr s' \<and>
             b' = b\<lparr> b_ships := (b_ships b)[k := s'] \<rparr> \<and>
             \<not> check_location_ship b' s' (Some k)))"
proof (cases "move (b_ships b ! k) d")
  case (Inl e)
  then have "e = ShipMoveError" by (simp add: move_Inl)
  with Inl assms show ?thesis
    by (simp add: DefenderMoveShip_def move_ship_def get_start_coords_def restore_same)
next
  case (Inr s')
  let ?b1 = "b\<lparr> b_ships := (b_ships b)[k := s'] \<rparr>"
  show ?thesis
  proof (cases "check_location_ship ?b1 s' (Some k)")
    case True
    have "(b_ships b)[k := s', k := set_start_coords ((b_ships b)[k := s'] ! k)
        (s_x (b_ships b ! k)) (s_y (b_ships b ! k))] = b_ships b"
      by (rule list_update_restore) (rule restore_after_move [OF Inr])
    with True Inr assms show ?thesis
      by (simp add: DefenderMoveShip_def move_ship_def get_start_coords_def)
  next
    case False
    with Inr assms show ?thesis
      by (auto simp: DefenderMoveShip_def move_ship_def get_start_coords_def)
  qed
qed

lemma move_one_cases:
  assumes "move_one k d b = (r, b')"
  shows "r = Inr () \<and>
     (b' = b \<or>
      (\<exists>s' d'. (d' = d \<or> d' = - d) \<and> move (b_ships b ! k) d' = Inr s' \<and>
          b' = b\<lparr> b_ships := (b_ships b)[k := s'] \<rparr> \<and>
          \<not> check_location_ship b' s' (Some k)))"
proof -
  obtain r1 b1 where g1: "DefenderMoveShip k (move_ship k d) b = (r1, b1)"
    by (cases "DefenderMoveShip k (move_ship k d) b")
  from guarded_move_cases [OF g1] show ?thesis
  proof
    assume f1: "r1 = Inl ShipMoveError \<and> b1 = b"
    obtain r2 b2 where g2: "DefenderMoveShip k (move_ship k (- d)) b = (r2, b2)"
      by (cases "DefenderMoveShip k (move_ship k (- d)) b")
    from guarded_move_cases [OF g2] show ?thesis
    proof
      assume "r2 = Inl ShipMoveError \<and> b2 = b"
      with f1 g1 g2 assms show ?thesis by (simp add: move_one_def)
    next
      assume s2: "r2 = Inr () \<and> (\<exists>s'. move (b_ships b ! k) (- d) = Inr s' \<and>
             b2 = b\<lparr> b_ships := (b_ships b)[k := s'] \<rparr> \<and>
             \<not> check_location_ship b2 s' (Some k))"
      with f1 g1 g2 assms have "r = Inr ()" "b' = b2" by (simp_all add: move_one_def)
      with s2 show ?thesis by blast
    qed
  next
    assume s1: "r1 = Inr () \<and> (\<exists>s'. move (b_ships b ! k) d = Inr s' \<and>
             b1 = b\<lparr> b_ships := (b_ships b)[k := s'] \<rparr> \<and>
             \<not> check_location_ship b1 s' (Some k))"
    with g1 assms have "r = Inr ()" "b' = b1" by (simp_all add: move_one_def)
    with s1 show ?thesis by blast
  qed
qed

lemma fleet_ok_update:
  assumes ok: "fleet_ok b" and k: "k < length (b_ships b)"
    and chk: "\<not> check_location_ship (b\<lparr> b_ships := (b_ships b)[k := s'] \<rparr>) s' (Some k)"
  shows "fleet_ok (b\<lparr> b_ships := (b_ships b)[k := s'] \<rparr>)"
proof -
  from chk have out: "\<not> is_out_board s' (b_size b)"
    and col: "\<And>j. j < length (b_ships b) \<Longrightarrow> j \<noteq> k \<Longrightarrow> \<not> is_collide s' (b_ships b ! j)"
    by (auto simp: check_location_ship_iff)
  show ?thesis
    unfolding fleet_ok_def
  proof (intro allI impI conjI)
    fix i assume "i < length (b_ships (b\<lparr>b_ships := (b_ships b)[k := s']\<rparr>))"
    then have i: "i < length (b_ships b)" by simp
    show "\<not> is_out_board (b_ships (b\<lparr>b_ships := (b_ships b)[k := s']\<rparr>) ! i)
        (b_size (b\<lparr>b_ships := (b_ships b)[k := s']\<rparr>))"
      using i ok out by (cases "i = k") (auto simp: fleet_ok_def)
    fix j assume "j < length (b_ships (b\<lparr>b_ships := (b_ships b)[k := s']\<rparr>))" and ij: "i \<noteq> j"
    then have j: "j < length (b_ships b)" by simp
    show "\<not> is_collide (b_ships (b\<lparr>b_ships := (b_ships b)[k := s']\<rparr>) ! i)
        (b_ships (b\<lparr>b_ships := (b_ships b)[k := s']\<rparr>) ! j)"
      using i j ij ok col [of i] col [of j] is_collide_sym [of s']
      by (cases "i = k"; cases "j = k") (auto simp: fleet_ok_def)
  qed
qed

lemma move_one_fleet_ok:
  assumes "fleet_ok b" and "move_one k d b = (r, b')"
  shows "fleet_ok b'"
proof (cases "k < length (b_ships b)")
  case True
  with move_one_cases [OF assms(2)] assms(1) show ?thesis
    by (auto intro: fleet_ok_update)
next
  case False
  with move_one_cases [OF assms(2)] have "b' = b" by (auto simp: list_update_beyond)
  with assms(1) show ?thesis by simp
qed

lemma moved_only_refl: "moved_only b b"
  by (simp add: moved_only_def)

lemma moved_only_trans: "moved_only a b \<Longrightarrow> moved_only b c \<Longrightarrow> moved_only a c"
  unfolding moved_only_def by (intro conjI allI impI) simp_all

lemma moved_only_update:
  assumes "move (b_ships b ! k) d = Inr s'"
  shows "moved_only b (b\<lparr> b_ships := (b_ships b)[k := s'] \<rparr>)"
proof -
  from move_Inr [OF assms] have m: "s_is_move (b_ships b ! k)"
    and s': "s_length s' = s_length (b_ships b ! k)" "s_tp s' = s_tp (b_ships b ! k)"
      "s_is_move s' = s_is_move (b_ships b ! k)" "s_cells s' = s_cells (b_ships b ! k)"
    by (auto split: if_splits)
  show ?thesis
    unfolding moved_only_def
  proof (intro conjI allI impI)
    fix j assume j: "j < length (b_ships b)"
    show "s_length (b_ships (b\<lparr>b_ships := (b_ships b)[k := s']\<rparr>) ! j) = s_length (b_ships b ! j)"
      using j s' by (cases "j = k") simp_all
    show "s_tp (b_ships (b\<lparr>b_ships := (b_ships b)[k := s']\<rparr>) ! j) = s_tp (b_ships b ! j)"
      using j s' by (cases "j = k") simp_all
    show "s_is_move (b_ships (b\<lparr>b_ships := (b_ships b)[k := s']\<rparr>) ! j) = s_is_move (b_ships b ! j)"
      using j s' by (cases "j = k") simp_all
    show "s_cells (b_ships (b\<lparr>b_ships := (b_ships b)[k := s']\<rparr>) ! j) = s_cells (b_ships b ! j)"
      using j s' by (cases "j = k") simp_all
    assume "\<not> s_is_move (b_ships b ! j)"
    with m have "j \<noteq> k" by auto
    then show "b_ships (b\<lparr>b_ships := (b_ships b)[k := s']\<rparr>) ! j = b_ships b ! j" by simp
  qed simp_all
qed

lemma move_one_moved_only:
  assumes "move_one k d b = (r, b')"
  shows "moved_only b b'"
  using move_one_cases [OF assms] by (auto intro: moved_only_refl moved_only_update)

lemma move_ships_loop_inv:
  "move_ships_loop ks coin b = (r, b') \<Longrightarrow>
     r = Inr () \<and> moved_only b b' \<and> (fleet_ok b \<longrightarrow> fleet_ok b')"
proof (induction ks arbitrary: b)
  case Nil
  then show ?case by (simp add: moved_only_refl)
next
  case (Cons k ks)
  obtain r1 b1 where m: "move_one k (choice_direction (coin k)) b = (r1, b1)"
    by (cases "move_one k (choice_direction (coin k)) b")
  from move_one_cases [OF m] have r1: "r1 = Inr ()" by simp
  with m Cons.prems have "move_ships_loop ks coin b1 = (r, b')" by simp
  from Cons.IH [OF this] move_one_moved_only [OF m] move_one_fleet_ok [OF _ m]
  show ?case by (blast intro: moved_only_trans)
qed

lemma move_ships_inv:
  "move_ships coin b = (r, b') \<Longrightarrow>
     r = Inr () \<and> moved_only b b' \<and> (fleet_ok b \<longrightarrow> fleet_ok b')"
  unfolding move_ships_def by (rule move_ships_loop_inv)

lemma place_all_Inr:
  "place_all b ss rs = Some (Inr (b', rs')) \<Longrightarrow>
     b_size b' = b_size b \<and>
     (\<exists>cs. length cs = length ss \<and>
        b_ships b' = b_ships b @ map (\<lambda>(s, c). set_start_coords s (fst c) (snd c)) (zip ss cs)) \<and>
     (fleet_ok b \<longrightarrow> fleet_ok b')"
proof (induction ss arbitrary: b rs)
  case Nil
  then show ?case by simp
next
  case (Cons s ss)
  from Cons.prems obtain b1 rs1 where p: "placement_ship b s rs = Some (Inr (b1, rs1))"
    and rest: "place_all b1 ss rs1 = Some (Inr (b', rs'))"
    by (auto split: option.splits sum.splits)
  from placement_ship_Inr [OF p] obtain x0 y0 where
    b1: "b1 = b\<lparr> b_ships := b_ships b @ [set_start_coords s x0 y0] \<rparr>"
    and chk: "\<not> check_location_ship b (set_start_coords s x0 y0) None" by blast
  from Cons.IH [OF rest] obtain cs where sz: "b_size b' = b_size b1"
    and cs: "length cs = length ss"
      "b_ships b' = b_ships b1 @ map (\<lambda>(s, c). set_start_coords s (fst c) (snd c)) (zip ss cs)"
    and ok: "fleet_ok b1 \<longrightarrow> fleet_ok b'" by blast
  have "length ((x0, y0) # cs) = length (s # ss)" using cs by simp
  moreover have "b_ships b' = b_ships b @
      map (\<lambda>(s, c). set_start_coords s (fst c) (snd c)) (zip (s # ss) ((x0, y0) # cs))"
    using cs b1 by simp
  ultimately have ex: "\<exists>cs. length cs = length (s # ss) \<and>
        b_ships b' = b_ships b @ map (\<lambda>(s, c). set_start_coords s (fst c) (snd c)) (zip (s # ss) cs)"
    by blast
  from ok b1 chk have "fleet_ok b \<longrightarrow> fleet_ok b'" by (auto intro: fleet_ok_append)
  with ex sz b1 show ?case by simp
qed

lemma fleet_ok_empty: "fleet_ok \<lparr> b_size = sz, b_ships = [] \<rparr>"
  by (simp add: fleet_ok_def)

lemma fleet_lengths_eval: "fleet_lengths = [4, 3, 3, 2, 2, 2, 1, 1, 1, 1]"
  by (simp add: fleet_lengths_def NUMS_SHIPS_def numeral_eq_Suc)

lemma length_fleet_lengths: "length fleet_lengths = 10"
  by (simp add: fleet_lengths_eval)

lemma length_new_ships: "length (new_ships coin) = 10"
  by (simp add: new_ships_def length_fleet_lengths)

lemma ship_wf_Ship: "1 \<le> len \<Longrightarrow> ship_wf (set_start_coords (Ship len t a c) x0 y0)"
  by (simp add: ship_wf_def Ship_def set_start_coords_def list_all_iff)

lemma new_ships_nth:
  "i < 10 \<Longrightarrow> new_ships coin ! i = Ship (fleet_lengths ! i) (randint_1_2 (coin i)) 0 0"
  unfolding new_ships_def
  by (simp add: length_fleet_lengths nth_enumerate_eq)

lemma fleet_lengths_pos: "i < 10 \<Longrightarrow> 1 \<le> fleet_lengths ! i"
proof -
  assume "i < 10"
  then have "fleet_lengths ! i \<in> set fleet_lengths" by (simp add: length_fleet_lengths)
  moreover have "\<forall>l\<in>set fleet_lengths. 1 \<le> l" by (simp add: fleet_lengths_eval)
  ultimately show ?thesis by blast
qed

lemma Board_init_ships:
  assumes "Board_init sz coin rs = Some (Inr (b, rs'))"
  shows "b_size b = sz \<and> fleet_ok b \<and> length (b_ships b) = 10 \<and>
     (\<forall>i<10. \<exists>x0 y0. b_ships b ! i =
         set_start_coords (Ship (fleet_lengths ! i) (randint_1_2 (coin i)) 0 0) x0 y0)"
proof -
  from assms have "place_all \<lparr> b_size = sz, b_ships = [] \<rparr> (new_ships coin) rs = Some (Inr (b, rs'))"
    by (simp add: Board_init_def create_def)
  from place_all_Inr [OF this] fleet_ok_empty obtain cs where sz: "b_size b = sz"
    and cs: "length cs = 10"
      "b_ships b = map (\<lambda>(s, c). set_start_coords s (fst c) (snd c)) (zip (new_ships coin) cs)"
    and ok: "fleet_ok b" by (auto simp: length_new_ships)
  have "\<exists>x0 y0. b_ships b ! i =
         set_start_coords (Ship (fleet_lengths ! i) (randint_1_2 (coin i)) 0 0) x0 y0"
    if "i < 10" for i
    using that cs by (auto simp: length_new_ships new_ships_nth)
  with sz ok cs show ?thesis by (simp add: length_new_ships)
qed

lemma cell_hit_fields [simp]:
  "s_x (cell_hit s i) = s_x s" "s_y (cell_hit s i) = s_y s"
  "s_length (cell_hit s i) = s_length s" "s_tp (cell_hit s i) = s_tp s"
  "s_is_move (cell_hit s i) = False" "s_cells (cell_hit s i) = (s_cells s)[i := False]"
  by (simp_all add: cell_hit_def hurt_def)

lemma get_finish_coords_cell_hit [simp]: "get_finish_coords (cell_hit s i) = get_finish_coords s"
  by (simp add: get_finish_coords_def)

lemma is_collide_cell_hit [simp]:
  "is_collide (cell_hit s i) other = is_collide s other"
  "is_collide other (cell_hit s i) = is_collide other s"
  by (simp_all add: is_collide_iff)

lemma is_out_board_cell_hit [simp]: "is_out_board (cell_hit s i) sz = is_out_board s sz"
  by (simp add: is_out_board_iff)

lemma ship_wf_cell_hit: "ship_wf s \<Longrightarrow> ship_wf (cell_hit s i)"
  by (simp add: ship_wf_def)

lemma hit_cases:
  assumes "hit b y x = (r, b')"
  shows "b' = b \<or> (\<exists>k i. b' = b\<lparr> b_ships := (b_ships b)[k := cell_hit (b_ships b ! k) i] \<rparr>)"
  using assms unfolding hit_def
  by (auto simp: Let_def split: if_splits sum.splits square.splits)

lemma fleet_ok_cell_hit:
  assumes "fleet_ok b"
  shows "fleet_ok (b\<lparr> b_ships := (b_ships b)[k := cell_hit (b_ships b ! k) i] \<rparr>)"
  unfolding fleet_ok_def
proof (intro allI impI conjI)
  let ?b' = "b\<lparr> b_ships := (b_ships b)[k := cell_hit (b_ships b ! k) i] \<rparr>"
  fix a assume "a < length (b_ships ?b')"
  then have a: "a < length (b_ships b)" by simp
  then show "\<not> is_out_board (b_ships ?b' ! a) (b_size ?b')"
    using assms by (cases "a = k") (auto simp: fleet_ok_def)
  fix c assume "c < length (b_ships ?b')" and ac: "a \<noteq> c"
  then have c: "c < length (b_ships b)" by simp
  show "\<not> is_collide (b_ships ?b' ! a) (b_ships ?b' ! c)"
    using a c ac assms by (cases "a = k"; cases "c = k") (auto simp: fleet_ok_def)
qed

lemma all_wf_cell_hit:
  assumes "all_wf b"
  shows "all_wf (b\<lparr> b_ships := (b_ships b)[k := cell_hit (b_ships b ! k) i] \<rparr>)"
  unfolding all_wf_def
proof (intro allI impI)
  let ?b' = "b\<lparr> b_ships := (b_ships b)[k := cell_hit (b_ships b ! k) i] \<rparr>"
  fix a assume "a < length (b_ships ?b')"
  then have a: "a < length (b_ships b)" by simp
  then show "ship_wf (b_ships ?b' ! a)"
    using assms by (cases "a = k") (auto simp: all_wf_def intro: ship_wf_cell_hit)
qed

lemma all_wf_moved_only:
  assumes "all_wf b" and "moved_only b b'"
  shows "all_wf b'"
  using assms unfolding all_wf_def moved_only_def ship_wf_def by auto

lemma all_wf_init:
  assumes "Board_init sz coin rs = Some (Inr (b, rs'))"
  shows "all_wf b"
  unfolding all_wf_def
proof (intro allI impI)
  fix i assume "i < length (b_ships b)"
  with Board_init_ships [OF assms] have i: "i < 10" by simp
  with Board_init_ships [OF assms] obtain x0 y0 where
    "b_ships b ! i = set_start_coords (Ship (fleet_lengths ! i) (randint_1_2 (coin i)) 0 0) x0 y0"
    by blast
  with fleet_lengths_pos [OF i] show "ship_wf (b_ships b ! i)"
    by (simp add: ship_wf_Ship)
qed

lemma reachable_inv: "reachable b \<Longrightarrow> fleet_ok b \<and> all_wf b"
proof (induction rule: reachable.induct)
  case (after_init sz coin rs b rs')
  then show ?case using Board_init_ships all_wf_init by blast
next
  case (after_move_ships b coin r b')
  with move_ships_inv [OF after_move_ships.hyps(2)] show ?case
    by (blast intro: all_wf_moved_only)
next
  case (after_hit b y x r b')
  with hit_cases [OF after_hit.hyps(2)] show ?case
    by (auto intro: fleet_ok_cell_hit all_wf_cell_hit)
qed

lemma ship_squares_eq:
  "ship_squares s =
     concat (map (\<lambda>y. map (\<lambda>x. (y, x)) [s_x s .. fst (get_finish_coords s) - 1])
       [s_y s .. snd (get_finish_coords s) - 1])"
  by (simp add: ship_squares_def get_start_coords_def case_prod_beta)

lemma set_ship_squares:
  "set (ship_squares s) =
     {(y, x). s_y s \<le> y \<and> y < snd (get_finish_coords s) \<and>
              s_x s \<le> x \<and> x < fst (get_finish_coords s)}"
  unfolding ship_squares_eq by auto

lemma ship_squares_in_grid:
  assumes "\<not> is_out_board s sz"
  shows "set (ship_squares s) \<subseteq> {0..<sz} \<times> {0..<sz}"
  using assms by (auto simp: set_ship_squares is_out_board_iff)

lemma ship_squares_disjoint:
  assumes "\<not> is_collide s other"
  shows "set (ship_squares s) \<inter> set (ship_squares other) = {}"
  using assms by (auto simp: set_ship_squares is_collide_iff)


lemma demo_board_init: "Board_init 10 (\<lambda>_. True) demo_draws = Some (Inr (demo_board, []))"
  by (simp add: Board_init_def create_def new_ships_def fleet_lengths_eval randint_1_2_def
      demo_draws_def demo_board_def Ship_def set_start_coords_def check_location_ship_def
      is_out_board_iff is_collide_iff get_finish_coords_simps upt_rec)

lemma reachable_demo_board: "reachable demo_board"
  by (rule after_init [OF demo_board_init])

text \<open>
  C1. On every board that construction, \<open>move_ships\<close> and \<open>hit\<close> can produce, every ship
  has its start and finish coordinates in [0, size), the squares it occupies are squares
  of the grid, and two different ships neither collide nor share a square.
\<close>

theorem reachable_in_bounds_no_overlap:
  "reachable b \<Longrightarrow> i < length (b_ships b) \<Longrightarrow> j < length (b_ships b) \<Longrightarrow> i \<noteq> j \<Longrightarrow>
     \<not> is_out_board (b_ships b ! i) (b_size b) \<and>
     set (ship_squares (b_ships b ! i)) \<subseteq> {0..<b_size b} \<times> {0..<b_size b} \<and>
     \<not> is_collide (b_ships b ! i) (b_ships b ! j) \<and>
     set (ship_squares (b_ships b ! i)) \<inter> set (ship_squares (b_ships b ! j)) = {}"
proof -
  assume r: "reachable b" and i: "i < length (b_ships b)" and j: "j < length (b_ships b)"
    and ij: "i \<noteq> j"
  from reachable_inv [OF r] have ok: "fleet_ok b" by simp
  from ok i have out: "\<not> is_out_board (b_ships b ! i) (b_size b)" by (simp add: fleet_ok_def)
  from ok i j ij have col: "\<not> is_collide (b_ships b ! i) (b_ships b ! j)"
    by (simp add: fleet_ok_def)
  from out col ship_squares_in_grid [OF out] ship_squares_disjoint [OF col]
  show ?thesis by blast
qed

theorem reachable_in_bounds_no_overlap_witness:
  "reachable demo_board \<and>
   \<not> is_out_board (b_ships demo_board ! 0) (b_size demo_board) \<and>
   set (ship_squares (b_ships demo_board ! 0)) \<subseteq> {0..<b_size demo_board} \<times> {0..<b_size demo_board} \<and>
   \<not> is_collide (b_ships demo_board ! 0) (b_ships demo_board ! 1) \<and>
   set (ship_squares (b_ships demo_board ! 0)) \<inter> set (ship_squares (b_ships demo_board ! 1)) = {}"
proof -
  have r: "reachable demo_board" by (rule reachable_demo_board)
  have l: "0 < length (b_ships demo_board)" "1 < length (b_ships demo_board)"
    by (simp_all add: demo_board_def)
  from reachable_in_bounds_no_overlap [OF r l] r show ?thesis by simp
qed

section \<open>The two attempts of a move, the guard, and damaged ships\<close>

lemma DefenderMoveShip_Inr:
  "body b = (Inr v, b1) \<Longrightarrow> DefenderMoveShip k body b = (Inr v, b1)"
  by (simp add: DefenderMoveShip_def case_prod_beta)

lemma DefenderMoveShip_Inl:
  "body b = (Inl e, b1) \<Longrightarrow>
     DefenderMoveShip k body b =
       (Inl e, b1\<lparr> b_ships := (b_ships b1)
          [k := set_start_coords (b_ships b1 ! k) (s_x (b_ships b ! k)) (s_y (b_ships b ! k))] \<rparr>)"
  by (simp add: DefenderMoveShip_def get_start_coords_def)

lemma move_ship_Inl: "move_ship k d b = (Inl e, b1) \<Longrightarrow> e = ShipMoveError"
  by (auto simp: move_ship_def Let_def split: sum.splits if_splits dest: move_Inl)

lemma guarded_move_fails:
  assumes "fst (move_ship k d b) \<noteq> Inr ()"
  shows "DefenderMoveShip k (move_ship k d) b = (Inl ShipMoveError, b)"
proof -
  obtain r1 b1 where m: "move_ship k d b = (r1, b1)" by (cases "move_ship k d b")
  with assms obtain e where "r1 = Inl e" by (cases r1) auto
  with m have m': "move_ship k d b = (Inl e, b1)" by simp
  obtain r b' where g: "DefenderMoveShip k (move_ship k d) b = (r, b')"
    by (cases "DefenderMoveShip k (move_ship k d) b")
  from g DefenderMoveShip_Inl [where body = "move_ship k d" and b = b, OF m'] have "r = Inl e" by simp
  with guarded_move_cases [OF g] g show ?thesis by auto
qed

lemma guarded_move_succeeds:
  assumes "fst (move_ship k d b) = Inr ()"
  shows "DefenderMoveShip k (move_ship k d) b = (Inr (), snd (move_ship k d b))"
  using assms by (intro DefenderMoveShip_Inr [where body = "move_ship k d" and b = b]) (simp add: prod_eq_iff)

lemma move_one_eq:
  "move_one k d b =
     (Inr (),
      if fst (move_ship k d b) = Inr () then snd (move_ship k d b)
      else if fst (move_ship k (- d) b) = Inr () then snd (move_ship k (- d) b)
      else b)"
proof (cases "fst (move_ship k d b) = Inr ()")
  case True
  then show ?thesis by (simp add: move_one_def guarded_move_succeeds)
next
  case False
  note f1 = this
  show ?thesis
  proof (cases "fst (move_ship k (- d) b) = Inr ()")
    case True
    with f1 show ?thesis
      by (simp add: move_one_def guarded_move_fails guarded_move_succeeds)
  next
    case False
    with f1 show ?thesis
      by (simp add: move_one_def guarded_move_fails)
  qed
qed

lemma move_ships_loop_fold:
  "move_ships_loop ks coin b =
     (Inr (), fold (\<lambda>k b. snd (move_one k (choice_direction (coin k)) b)) ks b)"
  by (induction ks arbitrary: b) (simp_all add: move_one_eq)

lemma move_ships_fold:
  "move_ships coin b =
     (Inr (), fold (\<lambda>k b. snd (move_one k (choice_direction (coin k)) b))
        [0..<length (b_ships b)] b)"
  by (simp add: move_ships_def move_ships_loop_fold)

lemma guard_keeps_damage:
  assumes "body b = (Inl e, b1)" and "k < length (b_ships b1)"
  shows "fst (DefenderMoveShip k body b) = Inl e \<and>
     get_start_coords (b_ships (snd (DefenderMoveShip k body b)) ! k) = get_start_coords (b_ships b ! k) \<and>
     s_is_move (b_ships (snd (DefenderMoveShip k body b)) ! k) = s_is_move (b_ships b1 ! k) \<and>
     s_cells (b_ships (snd (DefenderMoveShip k body b)) ! k) = s_cells (b_ships b1 ! k)"
  using assms(2) unfolding DefenderMoveShip_Inl [where body = body and b = b, OF assms(1)]
  by (simp add: get_start_coords_def set_start_coords_def)

text \<open>
  C5. \<open>move_ships\<close> runs \<open>move_one\<close> on each ship in turn with the direction its coin
  gives. For a ship, \<open>move_one\<close> leaves the board of the first attempt when that attempt
  returns, else the board of the attempt in the opposite direction made from the board as
  it was, else the board as it was: when both attempts raise, the start coordinate of the
  ship is the one it had. The flag and the cells of the ship are never changed by it. The
  guard around any body that raises puts back the start coordinate and leaves the flag and
  the cells as the body left them.
\<close>

theorem move_ships_attempts_and_rollback:
  "k < length (b_ships b) \<Longrightarrow> body b = (Inl e, b1) \<Longrightarrow> k < length (b_ships b1) \<Longrightarrow>
     move_ships coin b =
       (Inr (), fold (\<lambda>k b. snd (move_one k (choice_direction (coin k)) b))
          [0..<length (b_ships b)] b) \<and>
     move_one k d b =
       (Inr (),
        if fst (move_ship k d b) = Inr () then snd (move_ship k d b)
        else if fst (move_ship k (- d) b) = Inr () then snd (move_ship k (- d) b)
        else b) \<and>
     (fst (move_ship k d b) \<noteq> Inr () \<and> fst (move_ship k (- d) b) \<noteq> Inr () \<longrightarrow>
        get_start_coords (b_ships (snd (move_one k d b)) ! k) = get_start_coords (b_ships b ! k)) \<and>
     s_is_move (b_ships (snd (move_one k d b)) ! k) = s_is_move (b_ships b ! k) \<and>
     s_cells (b_ships (snd (move_one k d b)) ! k) = s_cells (b_ships b ! k) \<and>
     fst (DefenderMoveShip k body b) = Inl e \<and>
     get_start_coords (b_ships (snd (DefenderMoveShip k body b)) ! k) = get_start_coords (b_ships b ! k) \<and>
     s_is_move (b_ships (snd (DefenderMoveShip k body b)) ! k) = s_is_move (b_ships b1 ! k) \<and>
     s_cells (b_ships (snd (DefenderMoveShip k body b)) ! k) = s_cells (b_ships b1 ! k)"
proof -
  assume k: "k < length (b_ships b)" and body: "body b = (Inl e, b1)"
    and k1: "k < length (b_ships b1)"
  have m: "moved_only b (snd (move_one k d b))"
    by (rule move_one_moved_only [of k d b "fst (move_one k d b)"]) simp
  from m k have flag: "s_is_move (b_ships (snd (move_one k d b)) ! k) = s_is_move (b_ships b ! k)"
    and cells: "s_cells (b_ships (snd (move_one k d b)) ! k) = s_cells (b_ships b ! k)"
    by (simp_all add: moved_only_def)
  have both: "fst (move_ship k d b) \<noteq> Inr () \<and> fst (move_ship k (- d) b) \<noteq> Inr () \<longrightarrow>
        get_start_coords (b_ships (snd (move_one k d b)) ! k) = get_start_coords (b_ships b ! k)"
    by (simp add: move_one_eq)
  from move_ships_fold [of coin b] move_one_eq [of k d b] both flag cells
    guard_keeps_damage [where body = body and b = b, OF body k1]
  show ?thesis by blast
qed

lemma demo_move_fails:
  "fst (move_ship 0 1 demo_board) \<noteq> Inr ()" "fst (move_ship 0 (- 1) demo_board) \<noteq> Inr ()"
  by code_simp+

theorem move_ships_attempts_and_rollback_witness:
  "move_one 0 1 demo_board = (Inr (), demo_board) \<and>
   get_start_coords (b_ships (snd (move_one 0 1 demo_board)) ! 0) = (0, 0) \<and>
   fst (DefenderMoveShip 0 demo_body demo_board) = Inl ShootError \<and>
   get_start_coords (b_ships (snd (DefenderMoveShip 0 demo_body demo_board)) ! 0) = (0, 0) \<and>
   s_is_move (b_ships (snd (DefenderMoveShip 0 demo_body demo_board)) ! 0) = False \<and>
   s_cells (b_ships (snd (DefenderMoveShip 0 demo_body demo_board)) ! 0) = [False, True, True, True]"
proof -
  have k: "0 < length (b_ships demo_board)" by (simp add: demo_board_def)
  have body: "demo_body demo_board =
      (Inl ShootError, demo_board\<lparr> b_ships := (b_ships demo_board)[0 := cell_hit (b_ships demo_board ! 0) 0] \<rparr>)"
    by (simp add: demo_body_def)
  have k1: "0 < length (b_ships (demo_board\<lparr> b_ships := (b_ships demo_board)[0 := cell_hit (b_ships demo_board ! 0) 0] \<rparr>))"
    by (simp add: demo_board_def)
  have s0: "get_start_coords (b_ships demo_board ! 0) = (0, 0)"
    by (simp add: demo_board_def get_start_coords_def Ship_def)
  have c0: "s_cells (b_ships demo_board ! 0) = [True, True, True, True]"
    by (simp add: demo_board_def Ship_def numeral_eq_Suc)
  from move_ships_attempts_and_rollback [where body = demo_body and b = demo_board
      and coin = "\<lambda>_. True" and d = 1, OF k body k1] demo_move_fails s0 c0 k
  show ?thesis by simp
qed

lemma hit_frozen:
  assumes "hit b y x = (r, b')"
  shows "length (b_ships b') = length (b_ships b) \<and>
     get_start_coords (b_ships b' ! j) = get_start_coords (b_ships b ! j) \<and>
     (\<not> s_is_move (b_ships b ! j) \<longrightarrow> \<not> s_is_move (b_ships b' ! j))"
  using hit_cases [OF assms]
proof
  assume "b' = b"
  then show ?thesis by simp
next
  assume "\<exists>k i. b' = b\<lparr> b_ships := (b_ships b)[k := cell_hit (b_ships b ! k) i] \<rparr>"
  then obtain k i where b': "b' = b\<lparr> b_ships := (b_ships b)[k := cell_hit (b_ships b ! k) i] \<rparr>"
    by blast
  show ?thesis
  proof (cases "k < length (b_ships b) \<and> j = k")
    case True
    with b' show ?thesis by (simp add: get_start_coords_def)
  next
    case False
    then have "(b_ships b)[k := cell_hit (b_ships b ! k) i] ! j = b_ships b ! j"
      by (cases "k < length (b_ships b)") (auto simp: list_update_beyond)
    with b' show ?thesis by simp
  qed
qed

lemma apply_op_frozen:
  assumes "k < length (b_ships b)" and "\<not> s_is_move (b_ships b ! k)"
  shows "length (b_ships (apply_op a b)) = length (b_ships b) \<and>
     \<not> s_is_move (b_ships (apply_op a b) ! k) \<and>
     get_start_coords (b_ships (apply_op a b) ! k) = get_start_coords (b_ships b ! k)"
proof (cases a)
  case (Op_move_ships coin)
  have "moved_only b (snd (move_ships coin b))"
    using move_ships_inv [of coin b "fst (move_ships coin b)" "snd (move_ships coin b)"] by simp
  with assms Op_move_ships show ?thesis by (simp add: moved_only_def)
next
  case (Op_hit y x)
  from hit_frozen [of b y x "fst (hit b y x)" "snd (hit b y x)" k] assms Op_hit
  show ?thesis by simp
qed

lemma apply_ops_frozen:
  "k < length (b_ships b) \<Longrightarrow> \<not> s_is_move (b_ships b ! k) \<Longrightarrow>
     length (b_ships (apply_ops ops b)) = length (b_ships b) \<and>
     \<not> s_is_move (b_ships (apply_ops ops b) ! k) \<and>
     get_start_coords (b_ships (apply_ops ops b) ! k) = get_start_coords (b_ships b ! k)"
proof (induction ops arbitrary: b)
  case Nil
  then show ?case by (simp add: apply_ops_def)
next
  case (Cons a ops)
  from apply_op_frozen [OF Cons.prems, of a]
  have 1: "k < length (b_ships (apply_op a b))" "\<not> s_is_move (b_ships (apply_op a b) ! k)"
    and 2: "length (b_ships (apply_op a b)) = length (b_ships b)"
       "get_start_coords (b_ships (apply_op a b) ! k) = get_start_coords (b_ships b ! k)"
    using Cons.prems(1) by simp_all
  from Cons.IH [OF 1] 2 show ?case by (simp add: apply_ops_def)
qed

lemma struck_not_movable:
  assumes "ship_wf s" and "i < length (s_cells s)" and "\<not> s_cells s ! i"
  shows "\<not> s_is_move s"
  using assms by (auto simp: ship_wf_def list_all_length)

text \<open>
  C4. \<open>Cell.hit\<close> clears the movement flag. On a board of a game a ship with a struck
  cell has the flag cleared; and a ship with the flag cleared keeps it cleared, raises
  \<open>ShipMoveError\<close> on every \<open>move\<close> and keeps its start coordinate, through any
  sequence of \<open>move_ships\<close> and \<open>hit\<close> calls.
\<close>

theorem damaged_ship_never_moves:
  "reachable b \<Longrightarrow> k < length (b_ships b) \<Longrightarrow>
     \<not> s_is_move (cell_hit (b_ships b ! k) i) \<and>
     ((\<exists>c<length (s_cells (b_ships b ! k)). \<not> s_cells (b_ships b ! k) ! c) \<longrightarrow>
        \<not> s_is_move (b_ships b ! k)) \<and>
     (\<not> s_is_move (b_ships b ! k) \<longrightarrow>
        (\<forall>ops d.
           \<not> s_is_move (b_ships (apply_ops ops b) ! k) \<and>
           move (b_ships (apply_ops ops b) ! k) d = Inl ShipMoveError \<and>
           get_start_coords (b_ships (apply_ops ops b) ! k) = get_start_coords (b_ships b ! k)))"
proof -
  assume r: "reachable b" and k: "k < length (b_ships b)"
  from reachable_inv [OF r] k have wf: "ship_wf (b_ships b ! k)" by (simp add: all_wf_def)
  have a: "\<not> s_is_move (cell_hit (b_ships b ! k) i)" by simp
  have b: "(\<exists>c<length (s_cells (b_ships b ! k)). \<not> s_cells (b_ships b ! k) ! c) \<longrightarrow>
        \<not> s_is_move (b_ships b ! k)"
    using struck_not_movable [OF wf] by blast
  have c: "\<not> s_is_move (b_ships (apply_ops ops b) ! k) \<and>
           move (b_ships (apply_ops ops b) ! k) d = Inl ShipMoveError \<and>
           get_start_coords (b_ships (apply_ops ops b) ! k) = get_start_coords (b_ships b ! k)"
    if f: "\<not> s_is_move (b_ships b ! k)" for ops d
    using apply_ops_frozen [OF k f, of ops] by (simp add: move_def)
  from a b c show ?thesis by blast
qed

lemma demo_board_hit_eval:
  "hit demo_board 0 0 = (Inr (True, Ranen), demo_board_hit)"
  "length (b_ships demo_board_hit) = 10"
  "s_cells (b_ships demo_board_hit ! 0) = [False, True, True, True]"
  "get_start_coords (b_ships demo_board_hit ! 0) = (0, 0)"
  by (code_simp+)

lemma reachable_demo_board_hit: "reachable demo_board_hit"
  by (rule after_hit [OF reachable_demo_board demo_board_hit_eval(1)])

theorem damaged_ship_never_moves_witness:
  "reachable demo_board_hit \<and>
   \<not> s_cells (b_ships demo_board_hit ! 0) ! 0 \<and>
   \<not> s_is_move (b_ships demo_board_hit ! 0) \<and>
   \<not> s_is_move (b_ships (apply_ops [Op_move_ships (\<lambda>_. True), Op_hit 2 2, Op_move_ships (\<lambda>_. False)]
        demo_board_hit) ! 0) \<and>
   move (b_ships (apply_ops [Op_move_ships (\<lambda>_. True), Op_hit 2 2, Op_move_ships (\<lambda>_. False)]
        demo_board_hit) ! 0) 1 = Inl ShipMoveError \<and>
   get_start_coords (b_ships (apply_ops [Op_move_ships (\<lambda>_. True), Op_hit 2 2, Op_move_ships (\<lambda>_. False)]
        demo_board_hit) ! 0) = (0, 0)"
proof -
  have k: "0 < length (b_ships demo_board_hit)" by (simp add: demo_board_hit_eval)
  have c: "\<exists>c<length (s_cells (b_ships demo_board_hit ! 0)). \<not> s_cells (b_ships demo_board_hit ! 0) ! c"
    by (rule exI [of _ 0]) (simp add: demo_board_hit_eval)
  from damaged_ship_never_moves [OF reachable_demo_board_hit k, of 0] c
  have f: "\<not> s_is_move (b_ships demo_board_hit ! 0)" by blast
  from damaged_ship_never_moves [OF reachable_demo_board_hit k, of 0] f
    reachable_demo_board_hit demo_board_hit_eval
  show ?thesis by simp
qed

section \<open>The grid of a board whose ships are apart\<close>

lemma py_index_in_range: "0 \<le> i \<Longrightarrow> i < int n \<Longrightarrow> py_index i n = Some (nat i)"
  by (simp add: py_index_def)

lemma set_square_in_range:
  assumes "grid_dims n res" and "0 \<le> y" "y < int n" "0 \<le> x" "x < int n"
  shows "set_square res y x v = Inr (res[nat y := (res ! nat y)[nat x := v]])"
proof -
  from assms have "nat y < n" by simp
  with assms(1) have "length (res ! nat y) = n" "length res = n" by (simp_all add: grid_dims_def)
  with assms show ?thesis by (simp add: set_square_def py_index_in_range)
qed

lemma get_square_in_range:
  assumes "grid_dims n res" and "0 \<le> y" "y < int n" "0 \<le> x" "x < int n"
  shows "get_square res y x = Inr (res ! nat y ! nat x)"
proof -
  from assms have "nat y < n" by simp
  with assms(1) have "length (res ! nat y) = n" "length res = n" by (simp_all add: grid_dims_def)
  with assms show ?thesis by (simp add: get_square_def py_index_in_range)
qed

lemma grid_dims_update:
  assumes "grid_dims n res"
  shows "grid_dims n (res[r := (res ! r)[c := v]])"
  using assms unfolding grid_dims_def
  by (cases "r < length res") (auto simp: nth_list_update list_update_beyond)

lemma grid_update_nth:
  assumes "grid_dims n res" and "r < n" "c < n" "r' < n" "c' < n"
  shows "res[r := (res ! r)[c := v]] ! r' ! c' = (if r' = r \<and> c' = c then v else res ! r' ! c')"
  using assms unfolding grid_dims_def
  by (auto simp: nth_list_update)

lemma grid_dims_replicate: "grid_dims n (replicate n (replicate n Star))"
  by (simp add: grid_dims_def)

lemma fill_ship_ok:
  assumes "grid_dims n res" and "in_grid n ps" and "distinct ps"
    and "i + length ps \<le> length (s_cells s)"
  shows "\<exists>res'. fill_ship k s ps i res = Inr res' \<and> grid_dims n res' \<and>
     (\<forall>j<length ps. res' ! nat (fst (ps ! j)) ! nat (snd (ps ! j)) = CellRef k (i + j)) \<and>
     (\<forall>y x. 0 \<le> y \<and> y < int n \<and> 0 \<le> x \<and> x < int n \<and> (y, x) \<notin> set ps \<longrightarrow>
        res' ! nat y ! nat x = res ! nat y ! nat x)"
  using assms
proof (induction ps arbitrary: i res)
  case Nil
  then show ?case by simp
next
  case (Cons p ps)
  obtain y x where p: "p = (y, x)" by (cases p)
  from Cons.prems(2) p have yx: "0 \<le> y" "y < int n" "0 \<le> x" "x < int n"
    and ig: "in_grid n ps" by (simp_all add: in_grid_def)
  let ?res1 = "res[nat y := (res ! nat y)[nat x := CellRef k i]]"
  have s1: "set_square res y x (CellRef k i) = Inr ?res1"
    by (rule set_square_in_range [OF Cons.prems(1) yx])
  have d1: "grid_dims n ?res1" by (rule grid_dims_update [OF Cons.prems(1)])
  from Cons.prems(3) have dist: "distinct ps" and notin: "(y, x) \<notin> set ps" using p by simp_all
  from Cons.prems(4) have len: "Suc i + length ps \<le> length (s_cells s)" and i: "i < length (s_cells s)"
    by simp_all
  from Cons.IH [OF d1 ig dist len] obtain res' where
    f: "fill_ship k s ps (Suc i) ?res1 = Inr res'" and d': "grid_dims n res'"
    and inside: "\<forall>j<length ps. res' ! nat (fst (ps ! j)) ! nat (snd (ps ! j)) = CellRef k (Suc i + j)"
    and outside: "\<forall>y' x'. 0 \<le> y' \<and> y' < int n \<and> 0 \<le> x' \<and> x' < int n \<and> (y', x') \<notin> set ps \<longrightarrow>
        res' ! nat y' ! nat x' = ?res1 ! nat y' ! nat x'"
    by blast
  have run: "fill_ship k s (p # ps) i res = Inr res'"
    using p i s1 f by simp
  have ny: "nat y < n" "nat x < n" using yx by simp_all
  have head: "res' ! nat y ! nat x = CellRef k i"
    using outside yx notin grid_update_nth [OF Cons.prems(1) ny ny] by simp
  have in': "res' ! nat (fst ((p # ps) ! j)) ! nat (snd ((p # ps) ! j)) = CellRef k (i + j)"
    if "j < length (p # ps)" for j
  proof (cases j)
    case 0
    with head p show ?thesis by simp
  next
    case (Suc j')
    with that inside show ?thesis by simp
  qed
  have out': "res' ! nat y' ! nat x' = res ! nat y' ! nat x'"
    if h: "0 \<le> y' \<and> y' < int n \<and> 0 \<le> x' \<and> x' < int n \<and> (y', x') \<notin> set (p # ps)" for y' x'
  proof -
    from h p have ne: "(y', x') \<noteq> (y, x)" and ni: "(y', x') \<notin> set ps" by auto
    from h have "0 \<le> y'" "y' < int n" "0 \<le> x'" "x' < int n" by simp_all
    then have n': "nat y' < n" "nat x' < n" by simp_all
    from ne h yx have "\<not> (nat y' = nat y \<and> nat x' = nat x)" by auto
    with grid_update_nth [OF Cons.prems(1) ny n'] have "?res1 ! nat y' ! nat x' = res ! nat y' ! nat x'"
      by simp
    with outside h ni show ?thesis by simp
  qed
  from run d' in' out' show ?case by blast
qed

lemma ship_squares_product:
  "ship_squares s =
     List.product [s_y s .. snd (get_finish_coords s) - 1] [s_x s .. fst (get_finish_coords s) - 1]"
  by (simp add: ship_squares_eq product_concat_map)

lemma distinct_ship_squares: "distinct (ship_squares s)"
  by (simp add: ship_squares_product distinct_product)

lemma length_ship_squares: "length (ship_squares s) = nat (s_length s)"
  by (simp add: ship_squares_product get_finish_coords_simps)

lemma in_grid_ship_squares:
  assumes "\<not> is_out_board s sz"
  shows "in_grid (nat sz) (ship_squares s)"
  using ship_squares_in_grid [OF assms] by (auto simp: in_grid_def)

lemma fill_ships_ok:
  assumes "grid_dims n res"
    and "\<forall>m<length ss. in_grid n (ship_squares (ss ! m)) \<and>
           length (ship_squares (ss ! m)) \<le> length (s_cells (ss ! m))"
    and "\<forall>a<length ss. \<forall>c<length ss. a \<noteq> c \<longrightarrow>
           set (ship_squares (ss ! a)) \<inter> set (ship_squares (ss ! c)) = {}"
  shows "\<exists>res'. fill_ships k ss res = Inr res' \<and> grid_dims n res' \<and>
     (\<forall>m<length ss. \<forall>j<length (ship_squares (ss ! m)).
        res' ! nat (fst (ship_squares (ss ! m) ! j)) ! nat (snd (ship_squares (ss ! m) ! j)) =
          CellRef (k + m) j) \<and>
     (\<forall>y x. 0 \<le> y \<and> y < int n \<and> 0 \<le> x \<and> x < int n \<and>
         (\<forall>m<length ss. (y, x) \<notin> set (ship_squares (ss ! m))) \<longrightarrow>
        res' ! nat y ! nat x = res ! nat y ! nat x)"
  using assms
proof (induction ss arbitrary: k res)
  case Nil
  then show ?case by simp
next
  case (Cons s ss)
  from Cons.prems(2) have s: "in_grid n (ship_squares s)"
      "0 + length (ship_squares s) \<le> length (s_cells s)"
    and rest: "\<forall>m<length ss. in_grid n (ship_squares (ss ! m)) \<and>
           length (ship_squares (ss ! m)) \<le> length (s_cells (ss ! m))"
    by auto
  have disj_rest: "\<forall>a<length ss. \<forall>c<length ss. a \<noteq> c \<longrightarrow>
           set (ship_squares (ss ! a)) \<inter> set (ship_squares (ss ! c)) = {}"
  proof (intro allI impI)
    fix a c assume "a < length ss" "c < length ss" "a \<noteq> c"
    with Cons.prems(3) [rule_format, of "Suc a" "Suc c"]
    show "set (ship_squares (ss ! a)) \<inter> set (ship_squares (ss ! c)) = {}" by simp
  qed
  have disj_head: "set (ship_squares s) \<inter> set (ship_squares (ss ! m)) = {}" if "m < length ss" for m
    using Cons.prems(3) [rule_format, of 0 "Suc m"] that by simp
  from fill_ship_ok [OF Cons.prems(1) s(1) distinct_ship_squares s(2), of k] obtain res1 where
    f1: "fill_ship k s (ship_squares s) 0 res = Inr res1" and d1: "grid_dims n res1"
    and in1: "\<forall>j<length (ship_squares s).
        res1 ! nat (fst (ship_squares s ! j)) ! nat (snd (ship_squares s ! j)) = CellRef k (0 + j)"
    and out1: "\<forall>y x. 0 \<le> y \<and> y < int n \<and> 0 \<le> x \<and> x < int n \<and> (y, x) \<notin> set (ship_squares s) \<longrightarrow>
        res1 ! nat y ! nat x = res ! nat y ! nat x"
    by blast
  from Cons.IH [OF d1 rest disj_rest, of "Suc k"] obtain res' where
    f2: "fill_ships (Suc k) ss res1 = Inr res'" and d': "grid_dims n res'"
    and in2: "\<forall>m<length ss. \<forall>j<length (ship_squares (ss ! m)).
        res' ! nat (fst (ship_squares (ss ! m) ! j)) ! nat (snd (ship_squares (ss ! m) ! j)) =
          CellRef (Suc k + m) j"
    and out2: "\<forall>y x. 0 \<le> y \<and> y < int n \<and> 0 \<le> x \<and> x < int n \<and>
         (\<forall>m<length ss. (y, x) \<notin> set (ship_squares (ss ! m))) \<longrightarrow>
        res' ! nat y ! nat x = res1 ! nat y ! nat x"
    by blast
  have run: "fill_ships k (s # ss) res = Inr res'" using f1 f2 by simp
  have inside: "res' ! nat (fst (ship_squares ((s # ss) ! m) ! j)) !
        nat (snd (ship_squares ((s # ss) ! m) ! j)) = CellRef (k + m) j"
    if m: "m < length (s # ss)" and j: "j < length (ship_squares ((s # ss) ! m))" for m j
  proof (cases m)
    case 0
    with j have j0: "j < length (ship_squares s)" by simp
    then have mem: "ship_squares s ! j \<in> set (ship_squares s)" by simp
    with s(1) have rng: "0 \<le> fst (ship_squares s ! j)" "fst (ship_squares s ! j) < int n"
      "0 \<le> snd (ship_squares s ! j)" "snd (ship_squares s ! j) < int n"
      by (auto simp: in_grid_def)
    have "\<forall>m<length ss. (fst (ship_squares s ! j), snd (ship_squares s ! j)) \<notin> set (ship_squares (ss ! m))"
      using disj_head mem by auto
    with out2 rng have "res' ! nat (fst (ship_squares s ! j)) ! nat (snd (ship_squares s ! j)) =
        res1 ! nat (fst (ship_squares s ! j)) ! nat (snd (ship_squares s ! j))"
      by blast
    with in1 j0 0 show ?thesis by simp
  next
    case (Suc m')
    with m j in2 show ?thesis by simp
  qed
  have outside: "res' ! nat y ! nat x = res ! nat y ! nat x"
    if h: "0 \<le> y \<and> y < int n \<and> 0 \<le> x \<and> x < int n \<and>
         (\<forall>m<length (s # ss). (y, x) \<notin> set (ship_squares ((s # ss) ! m)))" for y x
  proof -
    from h have a: "(y, x) \<notin> set (ship_squares s)" by auto
    have b: "\<forall>m<length ss. (y, x) \<notin> set (ship_squares (ss ! m))"
    proof (intro allI impI)
      fix m assume "m < length ss"
      with h have "(y, x) \<notin> set (ship_squares ((s # ss) ! Suc m))" by auto
      then show "(y, x) \<notin> set (ship_squares (ss ! m))" by simp
    qed
    from out2 h b have "res' ! nat y ! nat x = res1 ! nat y ! nat x" by blast
    also from out1 h a have "\<dots> = res ! nat y ! nat x" by blast
    finally show ?thesis .
  qed
  from run d' inside outside show ?case by blast
qed

lemma get_board_ok:
  assumes ok: "fleet_ok b" and wf: "all_wf b"
  shows "\<exists>g. get_board b = Inr g \<and> grid_dims (nat (b_size b)) g \<and>
     (\<forall>k<length (b_ships b). \<forall>j<length (ship_squares (b_ships b ! k)).
        get_square g (fst (ship_squares (b_ships b ! k) ! j)) (snd (ship_squares (b_ships b ! k) ! j)) =
          Inr (CellRef k j)) \<and>
     (\<forall>y x. 0 \<le> y \<and> y < b_size b \<and> 0 \<le> x \<and> x < b_size b \<and>
         (\<forall>k<length (b_ships b). (y, x) \<notin> set (ship_squares (b_ships b ! k))) \<longrightarrow>
        get_square g y x = Inr Star)"
proof -
  let ?n = "nat (b_size b)"
  have fits: "\<forall>m<length (b_ships b). in_grid ?n (ship_squares (b_ships b ! m)) \<and>
           length (ship_squares (b_ships b ! m)) \<le> length (s_cells (b_ships b ! m))"
    using ok wf by (auto simp: fleet_ok_def all_wf_def ship_wf_def length_ship_squares
        intro: in_grid_ship_squares)
  have disj: "\<forall>a<length (b_ships b). \<forall>c<length (b_ships b). a \<noteq> c \<longrightarrow>
           set (ship_squares (b_ships b ! a)) \<inter> set (ship_squares (b_ships b ! c)) = {}"
    using ok by (auto simp: fleet_ok_def intro!: ship_squares_disjoint)
  from fill_ships_ok [OF grid_dims_replicate fits disj, of 0] obtain g where
    g: "get_board b = Inr g" and d: "grid_dims ?n g"
    and inside: "\<forall>m<length (b_ships b). \<forall>j<length (ship_squares (b_ships b ! m)).
        g ! nat (fst (ship_squares (b_ships b ! m) ! j)) ! nat (snd (ship_squares (b_ships b ! m) ! j)) =
          CellRef (0 + m) j"
    and outside: "\<forall>y x. 0 \<le> y \<and> y < int ?n \<and> 0 \<le> x \<and> x < int ?n \<and>
         (\<forall>m<length (b_ships b). (y, x) \<notin> set (ship_squares (b_ships b ! m))) \<longrightarrow>
        g ! nat y ! nat x = replicate ?n (replicate ?n Star) ! nat y ! nat x"
    unfolding get_board_def by blast
  have a: "get_square g (fst (ship_squares (b_ships b ! k) ! j)) (snd (ship_squares (b_ships b ! k) ! j)) =
          Inr (CellRef k j)"
    if k: "k < length (b_ships b)" and j: "j < length (ship_squares (b_ships b ! k))" for k j
  proof -
    from j have "ship_squares (b_ships b ! k) ! j \<in> set (ship_squares (b_ships b ! k))" by simp
    with fits k have rng: "0 \<le> fst (ship_squares (b_ships b ! k) ! j)"
      "fst (ship_squares (b_ships b ! k) ! j) < int ?n"
      "0 \<le> snd (ship_squares (b_ships b ! k) ! j)" "snd (ship_squares (b_ships b ! k) ! j) < int ?n"
      by (auto simp: in_grid_def)
    from get_square_in_range [OF d rng] inside k j show ?thesis by simp
  qed
  have c: "get_square g y x = Inr Star"
    if h: "0 \<le> y \<and> y < b_size b \<and> 0 \<le> x \<and> x < b_size b \<and>
         (\<forall>k<length (b_ships b). (y, x) \<notin> set (ship_squares (b_ships b ! k)))" for y x
  proof -
    from h have rng: "0 \<le> y" "y < int ?n" "0 \<le> x" "x < int ?n" by simp_all
    then have "nat y < ?n" "nat x < ?n" by (auto split: if_splits)
    then have "replicate ?n (replicate ?n Star) ! nat y ! nat x = Star" by simp
    with outside h rng have "g ! nat y ! nat x = Star" by simp
    with get_square_in_range [OF d rng] show ?thesis by simp
  qed
  from g d a c show ?thesis by blast
qed

lemma set_square_Inl: "set_square res y x v = Inl e \<Longrightarrow> e = IndexError"
  by (auto simp: set_square_def split: option.splits)

lemma get_square_Inl: "get_square res y x = Inl e \<Longrightarrow> e = IndexError"
  by (auto simp: get_square_def split: option.splits)

lemma fill_ship_Inl: "fill_ship k s ps i res = Inl e \<Longrightarrow> e = IndexError"
proof (induction ps arbitrary: i res)
  case Nil
  then show ?case by simp
next
  case (Cons p ps)
  obtain y x where p: "p = (y, x)" by (cases p)
  from Cons.prems p show ?case
    by (auto split: if_splits sum.splits dest: set_square_Inl Cons.IH)
qed

lemma fill_ships_Inl: "fill_ships k ss res = Inl e \<Longrightarrow> e = IndexError"
  by (induction ss arbitrary: k res) (auto split: sum.splits dest: fill_ship_Inl)

lemma get_board_Inl: "get_board b = Inl e \<Longrightarrow> e = IndexError"
  unfolding get_board_def by (rule fill_ships_Inl)

lemma hit_out_of_range:
  "\<not> (0 \<le> y \<and> y < b_size b) \<or> \<not> (0 \<le> x \<and> x < b_size b) \<Longrightarrow>
     hit b y x = (Inl IndexBoardError, b)"
  by (auto simp: hit_def)

lemma hit_error_keeps_board: "fst (hit b y x) = Inl e \<Longrightarrow> snd (hit b y x) = b"
  unfolding hit_def
  by (auto simp: Let_def split: if_splits sum.splits square.splits)

lemma hit_IndexBoardError_iff:
  "fst (hit b y x) = Inl IndexBoardError \<longleftrightarrow>
     \<not> (0 \<le> y \<and> y < b_size b) \<or> \<not> (0 \<le> x \<and> x < b_size b)"
proof
  assume e: "fst (hit b y x) = Inl IndexBoardError"
  show "\<not> (0 \<le> y \<and> y < b_size b) \<or> \<not> (0 \<le> x \<and> x < b_size b)"
  proof (rule ccontr)
    assume "\<not> (\<not> (0 \<le> y \<and> y < b_size b) \<or> \<not> (0 \<le> x \<and> x < b_size b))"
    then have "\<not> list_ex (\<lambda>p. \<not> (0 \<le> p \<and> p < b_size b)) [x, y]" by simp
    with e show False
      unfolding hit_def
      by (auto simp: Let_def split: sum.splits square.splits if_splits
          dest: get_board_Inl get_square_Inl)
  qed
next
  assume "\<not> (0 \<le> y \<and> y < b_size b) \<or> \<not> (0 \<le> x \<and> x < b_size b)"
  then show "fst (hit b y x) = Inl IndexBoardError" by (simp add: hit_out_of_range)
qed

lemma ship_square_in_range:
  assumes "fleet_ok b" and "k < length (b_ships b)"
    and "(y, x) \<in> set (ship_squares (b_ships b ! k))"
  shows "0 \<le> y \<and> y < b_size b - 1 \<and> 0 \<le> x \<and> x < b_size b - 1"
proof -
  from assms(1,2) have "\<not> is_out_board (b_ships b ! k) (b_size b)" by (simp add: fleet_ok_def)
  with assms(3) show ?thesis by (auto simp: set_ship_squares is_out_board_iff)
qed

lemma hit_on_cell:
  assumes ok: "fleet_ok b" and wf: "all_wf b" and k: "k < length (b_ships b)"
    and j: "j < length (ship_squares (b_ships b ! k))"
    and sq: "ship_squares (b_ships b ! k) ! j = (y, x)"
  shows "hit b y x =
     (if \<not> s_cells (b_ships b ! k) ! j then (Inl ShootError, b)
      else (Inr (True, if ship_alive (cell_hit (b_ships b ! k) j) then Ranen else Ubit),
            b\<lparr> b_ships := (b_ships b)[k := cell_hit (b_ships b ! k) j] \<rparr>))"
proof -
  from j sq have mem: "(y, x) \<in> set (ship_squares (b_ships b ! k))" by (metis nth_mem)
  from ship_square_in_range [OF ok k mem]
  have rng: "\<not> list_ex (\<lambda>p. \<not> (0 \<le> p \<and> p < b_size b)) [x, y]" by simp
  from get_board_ok [OF ok wf] obtain g where g: "get_board b = Inr g"
    and cellref: "\<forall>k<length (b_ships b). \<forall>j<length (ship_squares (b_ships b ! k)).
        get_square g (fst (ship_squares (b_ships b ! k) ! j)) (snd (ship_squares (b_ships b ! k) ! j)) =
          Inr (CellRef k j)"
    by blast
  from cellref k j sq have "get_square g y x = Inr (CellRef k j)" by fastforce
  with g rng k show ?thesis by (simp add: hit_def Let_def)
qed

lemma hit_on_water:
  assumes ok: "fleet_ok b" and wf: "all_wf b"
    and rng: "0 \<le> y" "y < b_size b" "0 \<le> x" "x < b_size b"
    and free: "\<forall>k<length (b_ships b). (y, x) \<notin> set (ship_squares (b_ships b ! k))"
  shows "hit b y x = (Inr (False, Mimo), b)"
proof -
  from rng have r: "\<not> list_ex (\<lambda>p. \<not> (0 \<le> p \<and> p < b_size b)) [x, y]" by simp
  from get_board_ok [OF ok wf] obtain g where g: "get_board b = Inr g"
    and star: "\<forall>y x. 0 \<le> y \<and> y < b_size b \<and> 0 \<le> x \<and> x < b_size b \<and>
         (\<forall>k<length (b_ships b). (y, x) \<notin> set (ship_squares (b_ships b ! k))) \<longrightarrow>
        get_square g y x = Inr Star"
    by blast
  from star rng free have "get_square g y x = Inr Star" by blast
  with g r show ?thesis by (simp add: hit_def)
qed

lemma ship_alive_cell_hit:
  assumes "j < length (s_cells s)"
  shows "ship_alive (cell_hit s j) \<longleftrightarrow> (\<exists>c<length (s_cells s). c \<noteq> j \<and> s_cells s ! c)"
  using assms
  by (auto simp: ship_alive_def list_ex_length nth_list_update)

section \<open>Shots\<close>

lemma one_ship_board_wf: "fleet_ok (one_ship_board t)" "all_wf (one_ship_board t)"
  by (simp_all add: one_ship_board_def fleet_ok_def all_wf_def ship_wf_def Ship_def
      is_out_board_iff get_finish_coords_simps)

lemma ship_squares_single: "ship_squares (Ship 1 t 3 3) = [(3, 3)]"
  by (simp add: ship_squares_eq get_finish_coords_simps Ship_def)

lemma one_ship_board_squares: "ship_squares (b_ships (one_ship_board t) ! 0) = [(3, 3)]"
  by (simp add: one_ship_board_def ship_squares_single)

lemma one_ship_board_first_hit:
  "hit (one_ship_board t) 3 3 =
     (Inr (True, Ubit), (one_ship_board t)\<lparr> b_ships := [cell_hit (Ship 1 t 3 3) 0] \<rparr>)"
proof -
  have k: "0 < length (b_ships (one_ship_board t))" by (simp add: one_ship_board_def)
  have j: "0 < length (ship_squares (b_ships (one_ship_board t) ! 0))"
    by (simp add: one_ship_board_squares)
  have sq: "ship_squares (b_ships (one_ship_board t) ! 0) ! 0 = (3, 3)"
    by (simp add: one_ship_board_squares)
  from hit_on_cell [OF one_ship_board_wf k j sq] show ?thesis
    by (simp add: one_ship_board_def Ship_def ship_alive_def cell_hit_def hurt_def)
qed

lemma ship_squares_cell_hit [simp]: "ship_squares (cell_hit s i) = ship_squares s"
  by (simp add: ship_squares_eq)

lemma one_ship_board_second_hit:
  "hit ((one_ship_board t)\<lparr> b_ships := [cell_hit (Ship 1 t 3 3) 0] \<rparr>) 3 3 =
     (Inl ShootError, (one_ship_board t)\<lparr> b_ships := [cell_hit (Ship 1 t 3 3) 0] \<rparr>)"
proof -
  let ?b = "(one_ship_board t)\<lparr> b_ships := [cell_hit (Ship 1 t 3 3) 0] \<rparr>"
  have b: "?b = (one_ship_board t)\<lparr> b_ships := (b_ships (one_ship_board t))
      [0 := cell_hit (b_ships (one_ship_board t) ! 0) 0] \<rparr>"
    by (simp add: one_ship_board_def)
  have ok: "fleet_ok ?b" unfolding b by (rule fleet_ok_cell_hit [OF one_ship_board_wf(1)])
  have wf: "all_wf ?b" unfolding b by (rule all_wf_cell_hit [OF one_ship_board_wf(2)])
  have k: "0 < length (b_ships ?b)" by simp
  have j: "0 < length (ship_squares (b_ships ?b ! 0))" by (simp add: ship_squares_single)
  have sq: "ship_squares (b_ships ?b ! 0) ! 0 = (3, 3)" by (simp add: ship_squares_single)
  from hit_on_cell [OF ok wf k j sq] show ?thesis
    by (simp add: Ship_def)
qed

text \<open>
  C3. On a board whose ships are inside the board, apart and built by the constructor (as
  every board of a game is, by \<open>reachable_inv\<close>), for a coordinate inside the board: when it is the square of an intact cell, \<open>hit\<close> strikes that
  cell (\<open>Cell.hit\<close>), returns True and prints \<open>Ranen\<close> (wounded) when another cell of the
  ship is intact and \<open>Ubit\<close> (sunk) when none is; when it is the square of no ship, \<open>hit\<close>
  prints \<open>Mimo\<close> (miss), returns False and leaves the board. On the board of size 10 whose
  only ship has length 1 at (3,3), in either orientation, \<open>hit(3, 3)\<close> returns True and
  prints \<open>Ubit\<close>, and \<open>hit(3, 3)\<close> on the board it leaves raises \<open>ShootError\<close>.
\<close>

theorem hit_outcomes:
  "fleet_ok b \<Longrightarrow> all_wf b \<Longrightarrow> 0 \<le> y \<Longrightarrow> y < b_size b \<Longrightarrow> 0 \<le> x \<Longrightarrow> x < b_size b \<Longrightarrow>
     (\<forall>k j. k < length (b_ships b) \<and> j < length (s_cells (b_ships b ! k)) \<and>
          ship_squares (b_ships b ! k) ! j = (y, x) \<and> s_cells (b_ships b ! k) ! j \<longrightarrow>
        hit b y x =
          (Inr (True,
             if \<exists>c<length (s_cells (b_ships b ! k)). c \<noteq> j \<and> s_cells (b_ships b ! k) ! c
             then Ranen else Ubit),
           b\<lparr> b_ships := (b_ships b)[k := cell_hit (b_ships b ! k) j] \<rparr>) \<and>
        s_cells (cell_hit (b_ships b ! k) j) = (s_cells (b_ships b ! k))[j := False]) \<and>
     ((\<forall>k<length (b_ships b). (y, x) \<notin> set (ship_squares (b_ships b ! k))) \<longrightarrow>
        hit b y x = (Inr (False, Mimo), b)) \<and>
     hit (one_ship_board t) 3 3 =
       (Inr (True, Ubit), (one_ship_board t)\<lparr> b_ships := [cell_hit (Ship 1 t 3 3) 0] \<rparr>) \<and>
     hit ((one_ship_board t)\<lparr> b_ships := [cell_hit (Ship 1 t 3 3) 0] \<rparr>) 3 3 =
       (Inl ShootError, (one_ship_board t)\<lparr> b_ships := [cell_hit (Ship 1 t 3 3) 0] \<rparr>)"
proof -
  assume ok: "fleet_ok b" and wf: "all_wf b"
    and rng: "0 \<le> y" "y < b_size b" "0 \<le> x" "x < b_size b"
  have cell: "hit b y x =
          (Inr (True,
             if \<exists>c<length (s_cells (b_ships b ! k)). c \<noteq> j \<and> s_cells (b_ships b ! k) ! c
             then Ranen else Ubit),
           b\<lparr> b_ships := (b_ships b)[k := cell_hit (b_ships b ! k) j] \<rparr>) \<and>
        s_cells (cell_hit (b_ships b ! k) j) = (s_cells (b_ships b ! k))[j := False]"
    if h: "k < length (b_ships b) \<and> j < length (s_cells (b_ships b ! k)) \<and>
          ship_squares (b_ships b ! k) ! j = (y, x) \<and> s_cells (b_ships b ! k) ! j" for k j
  proof -
    from h have k: "k < length (b_ships b)" and jc: "j < length (s_cells (b_ships b ! k))"
      and sq: "ship_squares (b_ships b ! k) ! j = (y, x)" and intact: "s_cells (b_ships b ! k) ! j"
      by simp_all
    from wf k jc have j: "j < length (ship_squares (b_ships b ! k))"
      by (simp add: all_wf_def ship_wf_def length_ship_squares)
    from hit_on_cell [OF ok wf k j sq] intact ship_alive_cell_hit [OF jc]
    show ?thesis by simp
  qed
  have water: "(\<forall>k<length (b_ships b). (y, x) \<notin> set (ship_squares (b_ships b ! k))) \<longrightarrow>
        hit b y x = (Inr (False, Mimo), b)"
    using hit_on_water [OF ok wf rng] by blast
  from cell water one_ship_board_first_hit [of t] one_ship_board_second_hit [of t]
  show ?thesis by blast
qed

lemma demo_board_wf: "fleet_ok demo_board" "all_wf demo_board"
  using reachable_inv [OF reachable_demo_board] by simp_all

lemma demo_board_hit_wf: "fleet_ok demo_board_hit" "all_wf demo_board_hit"
  using reachable_inv [OF reachable_demo_board_hit] by simp_all

lemma demo_board_facts:
  "b_size demo_board = 10" "length (b_ships demo_board) = 10"
  "ship_squares (b_ships demo_board ! 0) ! 0 = (0, 0)"
  "s_cells (b_ships demo_board ! 0) = [True, True, True, True]"
  by (code_simp+)

lemma demo_board_hit_facts:
  "b_size demo_board_hit = 10"
  "ship_squares (b_ships demo_board_hit ! 0) ! 0 = (0, 0)"
  by (code_simp+)

theorem hit_outcomes_witness:
  "hit demo_board 0 0 =
     (Inr (True, Ranen),
      demo_board\<lparr> b_ships := (b_ships demo_board)[0 := cell_hit (b_ships demo_board ! 0) 0] \<rparr>) \<and>
   s_cells (cell_hit (b_ships demo_board ! 0) 0) = [False, True, True, True]"
proof -
  have rng: "(0::int) \<le> 0" "0 < b_size demo_board" by (simp_all add: demo_board_facts)
  have h: "0 < length (b_ships demo_board) \<and> 0 < length (s_cells (b_ships demo_board ! 0)) \<and>
      ship_squares (b_ships demo_board ! 0) ! 0 = (0, 0) \<and> s_cells (b_ships demo_board ! 0) ! 0"
    by (simp add: demo_board_facts)
  have more: "\<exists>c<length (s_cells (b_ships demo_board ! 0)). c \<noteq> 0 \<and> s_cells (b_ships demo_board ! 0) ! c"
    by (rule exI [of _ 1]) (simp add: demo_board_facts)
  from hit_outcomes [OF demo_board_wf rng rng, of 1] h
  have e: "hit demo_board 0 0 =
      (Inr (True,
         if \<exists>c<length (s_cells (b_ships demo_board ! 0)). c \<noteq> 0 \<and> s_cells (b_ships demo_board ! 0) ! c
         then Ranen else Ubit),
       demo_board\<lparr> b_ships := (b_ships demo_board)[0 := cell_hit (b_ships demo_board ! 0) 0] \<rparr>) \<and>
      s_cells (cell_hit (b_ships demo_board ! 0) 0) = (s_cells (b_ships demo_board ! 0))[0 := False]"
    by blast
  have c: "(s_cells (b_ships demo_board ! 0))[0 := False] = [False, True, True, True]"
    by (simp add: demo_board_facts(4))
  from e show ?thesis unfolding if_P [OF more] c by blast
qed

text \<open>
  C2. \<open>hit\<close> raises \<open>IndexBoardError\<close> exactly when the row or the column is outside
  [0, size), on any board; on a board whose ships are inside the board, apart and built by
  the constructor, a shot at the square of a struck cell raises \<open>ShootError\<close> and strikes
  nothing; and whenever \<open>hit\<close> raises, the board is the one it was given.
\<close>

theorem hit_errors_leave_board:
  "fleet_ok b \<Longrightarrow> all_wf b \<Longrightarrow> k < length (b_ships b) \<Longrightarrow>
   j < length (s_cells (b_ships b ! k)) \<Longrightarrow> ship_squares (b_ships b ! k) ! j = (y, x) \<Longrightarrow>
   \<not> s_cells (b_ships b ! k) ! j \<Longrightarrow>
     hit b y x = (Inl ShootError, b) \<and>
     (fst (hit b' y' x') = Inl IndexBoardError \<longleftrightarrow>
        \<not> (0 \<le> y' \<and> y' < b_size b') \<or> \<not> (0 \<le> x' \<and> x' < b_size b')) \<and>
     (fst (hit b' y' x') = Inl e \<longrightarrow> snd (hit b' y' x') = b')"
proof -
  assume ok: "fleet_ok b" and wf: "all_wf b" and k: "k < length (b_ships b)"
    and jc: "j < length (s_cells (b_ships b ! k))"
    and sq: "ship_squares (b_ships b ! k) ! j = (y, x)"
    and struck: "\<not> s_cells (b_ships b ! k) ! j"
  from wf k jc have j: "j < length (ship_squares (b_ships b ! k))"
    by (simp add: all_wf_def ship_wf_def length_ship_squares)
  from hit_on_cell [OF ok wf k j sq] struck have "hit b y x = (Inl ShootError, b)" by simp
  with hit_IndexBoardError_iff [of b' y' x'] hit_error_keeps_board [of b' y' x' e]
  show ?thesis by blast
qed

theorem hit_errors_leave_board_witness:
  "hit demo_board_hit 0 0 = (Inl ShootError, demo_board_hit) \<and>
   fst (hit demo_board 10 0) = Inl IndexBoardError \<and>
   snd (hit demo_board 10 0) = demo_board"
proof -
  have k: "0 < length (b_ships demo_board_hit)" by (simp add: demo_board_hit_eval)
  have j: "0 < length (s_cells (b_ships demo_board_hit ! 0))" by (simp add: demo_board_hit_eval)
  have s: "\<not> s_cells (b_ships demo_board_hit ! 0) ! 0" by (simp add: demo_board_hit_eval)
  from hit_errors_leave_board [OF demo_board_hit_wf k j demo_board_hit_facts(2) s,
      of demo_board 10 0 IndexBoardError]
  show ?thesis by (simp add: demo_board_facts)
qed

text \<open>
  C8. On every board of a game, every square a ship occupies has its row and its column
  below size - 1; so the grid of \<open>get_board\<close> holds the background marker in the last row
  and the last column, and a shot at a square of the last row or the last column prints
  \<open>Mimo\<close> (miss), returns False and leaves the board.
\<close>

theorem last_row_and_column_free:
  "reachable b \<Longrightarrow>
     (\<forall>k<length (b_ships b). \<forall>p\<in>set (ship_squares (b_ships b ! k)).
        fst p < b_size b - 1 \<and> snd p < b_size b - 1) \<and>
     (0 \<le> y \<and> y < b_size b \<and> 0 \<le> x \<and> x < b_size b \<and> (y = b_size b - 1 \<or> x = b_size b - 1) \<longrightarrow>
        (\<exists>g. get_board b = Inr g \<and> get_square g y x = Inr Star) \<and>
        hit b y x = (Inr (False, Mimo), b))"
proof -
  assume r: "reachable b"
  from reachable_inv [OF r] have ok: "fleet_ok b" and wf: "all_wf b" by simp_all
  have sq: "fst p < b_size b - 1 \<and> snd p < b_size b - 1"
    if "k < length (b_ships b)" and "p \<in> set (ship_squares (b_ships b ! k))" for k p
    using ship_square_in_range [OF ok that(1), of "fst p" "snd p"] that(2) by simp
  have last: "(\<exists>g. get_board b = Inr g \<and> get_square g y x = Inr Star) \<and>
        hit b y x = (Inr (False, Mimo), b)"
    if h: "0 \<le> y \<and> y < b_size b \<and> 0 \<le> x \<and> x < b_size b \<and> (y = b_size b - 1 \<or> x = b_size b - 1)"
  proof -
    have free: "\<forall>k<length (b_ships b). (y, x) \<notin> set (ship_squares (b_ships b ! k))"
      using sq h by fastforce
    from h have rng: "0 \<le> y" "y < b_size b" "0 \<le> x" "x < b_size b" by simp_all
    from get_board_ok [OF ok wf] rng free
    have "\<exists>g. get_board b = Inr g \<and> get_square g y x = Inr Star" by blast
    with hit_on_water [OF ok wf rng free] show ?thesis by simp
  qed
  from sq last show ?thesis by blast
qed

theorem last_row_and_column_free_witness:
  "reachable demo_board \<and> hit demo_board 9 0 = (Inr (False, Mimo), demo_board) \<and>
   hit demo_board 6 9 = (Inr (False, Mimo), demo_board)"
  using last_row_and_column_free [OF reachable_demo_board, of 9 0]
    last_row_and_column_free [OF reachable_demo_board, of 6 9] reachable_demo_board
  by (simp add: demo_board_facts)

section \<open>The fleet of a new board\<close>

lemma set_start_coords_fields [simp]:
  "s_length (set_start_coords s x0 y0) = s_length s" "s_tp (set_start_coords s x0 y0) = s_tp s"
  by (simp_all add: set_start_coords_def)

lemma create_appends:
  assumes "create b0 coin rs = Some (Inr (b, rs'))"
  shows "\<exists>fleet. b_ships b = b_ships b0 @ fleet \<and> map s_length fleet = fleet_lengths \<and>
     map s_tp fleet = map (\<lambda>i. randint_1_2 (coin i)) [0..<10]"
proof -
  from assms have "place_all b0 (new_ships coin) rs = Some (Inr (b, rs'))"
    by (simp add: create_def)
  from place_all_Inr [OF this] obtain cs where cs: "length cs = length (new_ships coin)"
    and b: "b_ships b = b_ships b0 @
        map (\<lambda>(s, c). set_start_coords s (fst c) (snd c)) (zip (new_ships coin) cs)"
    by blast
  define fleet where
    "fleet = map (\<lambda>(s, c). set_start_coords s (fst c) (snd c)) (zip (new_ships coin) cs)"
  have len: "length fleet = 10" using cs by (simp add: fleet_def length_new_ships)
  have nth: "fleet ! i = set_start_coords (Ship (fleet_lengths ! i) (randint_1_2 (coin i)) 0 0)
      (fst (cs ! i)) (snd (cs ! i))" if "i < 10" for i
    using that cs by (simp add: fleet_def length_new_ships new_ships_nth)
  have "map s_length fleet = fleet_lengths"
  proof (rule nth_equalityI)
    show "length (map s_length fleet) = length fleet_lengths"
      by (simp add: len length_fleet_lengths)
    fix i assume "i < length (map s_length fleet)"
    then have i: "i < 10" by (simp add: len)
    then have "map s_length fleet ! i = s_length (fleet ! i)" by (simp add: len)
    also have "\<dots> = fleet_lengths ! i" unfolding nth [OF i] by (simp add: Ship_def)
    finally show "map s_length fleet ! i = fleet_lengths ! i" .
  qed
  moreover have "map s_tp fleet = map (\<lambda>i. randint_1_2 (coin i)) [0..<10]"
  proof (rule nth_equalityI)
    show "length (map s_tp fleet) = length (map (\<lambda>i. randint_1_2 (coin i)) [0..<10])"
      by (simp add: len)
    fix i assume "i < length (map s_tp fleet)"
    then have i: "i < 10" by (simp add: len)
    then have "map s_tp fleet ! i = s_tp (fleet ! i)" by (simp add: len)
    also have "\<dots> = randint_1_2 (coin i)" unfolding nth [OF i] by (simp add: Ship_def)
    finally show "map s_tp fleet ! i = map (\<lambda>i. randint_1_2 (coin i)) [0..<10] ! i"
      using i by simp
  qed
  ultimately show ?thesis using b unfolding fleet_def [symmetric] by blast
qed

lemma count_by_length:
  "length (filter (\<lambda>s. s_length s = l) ss) = length (filter (\<lambda>v. v = l) (map s_length ss))"
  by (simp add: filter_map comp_def)

text \<open>
  C6. \<open>create\<close> run on the empty fleet, as \<open>__init__\<close> runs it, leaves exactly ten ships:
  lengths 4, 3, 3, 2, 2, 2, 1, 1, 1, 1 in this order (one of 4, two of 3, three of 2, four
  of 1), the orientation of each being its own draw of \<open>randint(1, 2)\<close>.
\<close>

theorem create_fleet_composition:
  "b_ships b0 = [] \<Longrightarrow> create b0 coin rs = Some (Inr (b, rs')) \<Longrightarrow>
     length (b_ships b) = 10 \<and>
     map s_length (b_ships b) = [4, 3, 3, 2, 2, 2, 1, 1, 1, 1] \<and>
     length (filter (\<lambda>s. s_length s = 4) (b_ships b)) = 1 \<and>
     length (filter (\<lambda>s. s_length s = 3) (b_ships b)) = 2 \<and>
     length (filter (\<lambda>s. s_length s = 2) (b_ships b)) = 3 \<and>
     length (filter (\<lambda>s. s_length s = 1) (b_ships b)) = 4 \<and>
     map s_tp (b_ships b) = map (\<lambda>i. randint_1_2 (coin i)) [0..<10] \<and>
     (\<forall>s\<in>set (b_ships b). s_tp s = 1 \<or> s_tp s = 2) \<and>
     Board_init sz coin rs = create \<lparr> b_size = sz, b_ships = [] \<rparr> coin rs"
proof -
  assume e: "b_ships b0 = []" and c: "create b0 coin rs = Some (Inr (b, rs'))"
  from create_appends [OF c] e have l: "map s_length (b_ships b) = [4, 3, 3, 2, 2, 2, 1, 1, 1, 1]"
    and t: "map s_tp (b_ships b) = map (\<lambda>i. randint_1_2 (coin i)) [0..<10]"
    by (auto simp: fleet_lengths_eval)
  from l have n: "length (b_ships b) = 10" by (metis length_map fleet_lengths_eval length_fleet_lengths)
  have cnt: "length (filter (\<lambda>s. s_length s = 4) (b_ships b)) = 1"
    "length (filter (\<lambda>s. s_length s = 3) (b_ships b)) = 2"
    "length (filter (\<lambda>s. s_length s = 2) (b_ships b)) = 3"
    "length (filter (\<lambda>s. s_length s = 1) (b_ships b)) = 4"
    unfolding count_by_length l by simp_all
  have "set (map s_tp (b_ships b)) \<subseteq> {1, 2}" unfolding t by (auto simp: randint_1_2_def)
  then have tp: "\<forall>s\<in>set (b_ships b). s_tp s = 1 \<or> s_tp s = 2" by auto
  from n l cnt t tp show ?thesis by (simp add: Board_init_def)
qed

theorem create_fleet_composition_witness:
  "Board_init 10 (\<lambda>_. True) demo_draws = Some (Inr (demo_board, [])) \<and>
   length (b_ships demo_board) = 10 \<and>
   map s_length (b_ships demo_board) = [4, 3, 3, 2, 2, 2, 1, 1, 1, 1] \<and>
   length (filter (\<lambda>s. s_length s = 1) (b_ships demo_board)) = 4"
proof -
  have e: "b_ships \<lparr> b_size = 10, b_ships = [] \<rparr> = []" by simp
  have c: "create \<lparr> b_size = 10, b_ships = [] \<rparr> (\<lambda>_. True) demo_draws = Some (Inr (demo_board, []))"
    using demo_board_init by (simp add: Board_init_def)
  from create_fleet_composition [OF e c] demo_board_init show ?thesis by simp
qed

section \<open>Players and the game controller\<close>

lemma move_ships_returns: "move_ships coin b = (Inr (), snd (move_ships coin b))"
  by (simp add: move_ships_fold)

lemma SeaBattle_move_ships_eq:
  "SeaBattle_move_ships g =
     (Inr (), g\<lparr> g_human := snd (move_ships (g_coins g (g_moves g + 1)) (g_human g)),
               g_ai := snd (move_ships (g_coins g (g_moves g)) (g_ai g)),
               g_moves := g_moves g + 2 \<rparr>)"
  by (simp add: SeaBattle_move_ships_def move_ships_fold)

lemma player_turn_keeps_turn:
  assumes "player_turn g p = Some (r, g1)"
  shows "g_turn g1 = g_turn g \<and> g_coins g1 = g_coins g \<and> g_moves g1 = g_moves g"
  using assms
  by (cases p) (auto simp: player_turn_def split: option.splits)

text \<open>
  C9, as the code has it. When the shot of the active player returns a true value, the
  loop body leaves the turn with the same player. When it returns a false value, the turn
  passes to the other player: from the human to the computer with nothing else changed,
  and from the computer to the human with \<open>move_ships\<close> run on the board of the computer and
  then on the board of the human.
\<close>

theorem turn_changes_after_false_shot:
  "player_turn g (g_turn g) = Some (Inr v, g1) \<Longrightarrow>
     (truthy v \<longrightarrow> loop_body g = Some (Inr (), g1) \<and> g_turn g1 = g_turn g) \<and>
     (\<not> truthy v \<and> g_turn g = Human \<longrightarrow> loop_body g = Some (Inr (), g1\<lparr> g_turn := AI \<rparr>)) \<and>
     (\<not> truthy v \<and> g_turn g = AI \<longrightarrow>
        loop_body g =
          Some (Inr (),
            g1\<lparr> g_human := snd (move_ships (g_coins g1 (g_moves g1 + 1)) (g_human g1)),
                g_ai := snd (move_ships (g_coins g1 (g_moves g1)) (g_ai g1)),
                g_turn := Human, g_moves := g_moves g1 + 2 \<rparr>))"
proof -
  assume p: "player_turn g (g_turn g) = Some (Inr v, g1)"
  from player_turn_keeps_turn [OF p] have t: "g_turn g1 = g_turn g" by simp
  have l: "loop_body g = (if \<not> truthy v then Some (change_turn g1) else Some (Inr (), g1))"
    using p by (simp add: loop_body_def)
  have a: "truthy v \<longrightarrow> loop_body g = Some (Inr (), g1) \<and> g_turn g1 = g_turn g"
    using l t by simp
  have b: "\<not> truthy v \<and> g_turn g = Human \<longrightarrow> loop_body g = Some (Inr (), g1\<lparr> g_turn := AI \<rparr>)"
    using l t by (simp add: change_turn_def)
  have c: "\<not> truthy v \<and> g_turn g = AI \<longrightarrow>
        loop_body g =
          Some (Inr (),
            g1\<lparr> g_human := snd (move_ships (g_coins g1 (g_moves g1 + 1)) (g_human g1)),
                g_ai := snd (move_ships (g_coins g1 (g_moves g1)) (g_ai g1)),
                g_turn := Human, g_moves := g_moves g1 + 2 \<rparr>)"
    using l t by (simp add: change_turn_def SeaBattle_move_ships_eq)
  from a b c show ?thesis by blast
qed

lemma demo_Human_shoot_hit:
  "Human_shoot sample_tables demo_board [ascii_str ''a1''] =
     Some (Inr (PyBool True), demo_board_hit, [])"
  by code_simp

lemma demo_Human_shoot_miss:
  "Human_shoot sample_tables demo_board [ascii_str ''j1''] =
     Some (Inr (PyBool False), demo_board, [])"
  by code_simp

text \<open>
  C9 as stated fails: with the human to play and the line \<open>a1\<close> on the console, the shot
  strikes the ship at row 0, column 0 of the sample board, returns True, and the turn after
  the loop body is still the human's.
\<close>

theorem turn_kept_after_hit_counterexample:
  "g_turn (demo_game [ascii_str ''a1'']) = Human \<and>
   loop_body (demo_game [ascii_str ''a1'']) =
     Some (Inr (), (demo_game [])\<lparr> g_ai := demo_board_hit \<rparr>) \<and>
   g_turn ((demo_game [])\<lparr> g_ai := demo_board_hit \<rparr>) \<noteq>
     other_player (g_turn (demo_game [ascii_str ''a1'']))"
  by (simp add: loop_body_def player_turn_def demo_game_def demo_Human_shoot_hit
      del: Human_shoot.simps)

theorem turn_changes_after_false_shot_witness:
  "player_turn (demo_game [ascii_str ''j1'']) (g_turn (demo_game [ascii_str ''j1''])) =
     Some (Inr (PyBool False), demo_game []) \<and>
   loop_body (demo_game [ascii_str ''j1'']) = Some (Inr (), (demo_game [])\<lparr> g_turn := AI \<rparr>)"
proof -
  have p: "player_turn (demo_game [ascii_str ''j1'']) (g_turn (demo_game [ascii_str ''j1''])) =
     Some (Inr (PyBool False), demo_game [])"
    by (simp add: player_turn_def demo_game_def demo_Human_shoot_miss del: Human_shoot.simps)
  have t: "g_turn (demo_game [ascii_str ''j1'']) = Human" by (simp add: demo_game_def)
  from turn_changes_after_false_shot [OF p] t p show ?thesis by simp
qed

section \<open>The console input of the human player\<close>

lemma str_index_Inl: "str_index xs c = Inl e \<Longrightarrow> e = ValueError"
  by (induction xs) (auto split: if_splits sum.splits)

lemma str_index_notin: "c \<notin> set xs \<Longrightarrow> str_index xs c = Inl ValueError"
  by (induction xs) auto

lemma str_index_nth:
  "distinct xs \<Longrightarrow> i < length xs \<Longrightarrow> str_index xs (xs ! i) = Inr (int i)"
proof (induction xs arbitrary: i)
  case Nil
  then show ?case by simp
next
  case (Cons a xs)
  show ?case
  proof (cases i)
    case 0
    then show ?thesis by simp
  next
    case (Suc j)
    with Cons.prems have "xs ! j \<in> set xs" "a \<notin> set xs" "j < length xs" "distinct xs" by auto
    with Cons.IH [of j] Suc show ?thesis by auto
  qed
qed

lemma alphabet_facts:
  "distinct ascii_uppercase" "distinct ascii_lowercase" "distinct digits"
  "length ascii_uppercase = 26" "length ascii_lowercase = 26" "length digits = 10"
  "set ascii_lowercase \<inter> set ascii_uppercase = {}"
  "set ascii_lowercase \<inter> set digits = {}"
  "set ascii_uppercase \<inter> set digits = {}"
  by (simp_all add: ascii_uppercase_def ascii_lowercase_def digits_def ascii_str_def)

lemma alphabet_ascii:
  "c \<in> set ascii_uppercase \<Longrightarrow> c < 128" "c \<in> set ascii_lowercase \<Longrightarrow> c < 128"
  "c \<in> set digits \<Longrightarrow> c < 128"
  by (auto simp: ascii_uppercase_def ascii_lowercase_def digits_def ascii_str_def)

lemma ascii_upper_lower:
  "i < 26 \<Longrightarrow> ascii_upper (ascii_lowercase ! i) = ascii_uppercase ! i"
  by (simp add: ascii_upper_def str_index_nth alphabet_facts)

lemma ascii_upper_other: "c \<notin> set ascii_lowercase \<Longrightarrow> ascii_upper c = c"
  by (simp add: ascii_upper_def str_index_notin)

lemma ascii_upper_cases:
  "(c \<notin> set ascii_lowercase \<and> ascii_upper c = c) \<or>
   (\<exists>i<26. c = ascii_lowercase ! i \<and> ascii_upper c = ascii_uppercase ! i)"
proof (cases "c \<in> set ascii_lowercase")
  case True
  then obtain i where "i < length ascii_lowercase" "ascii_lowercase ! i = c"
    by (auto simp: in_set_conv_nth)
  then show ?thesis using ascii_upper_lower [of i] by (auto simp: alphabet_facts)
next
  case False
  then show ?thesis by (simp add: ascii_upper_other)
qed

lemma upper_letter_iff:
  "ascii_upper c \<in> set ascii_uppercase \<longleftrightarrow> c \<in> set ascii_uppercase \<or> c \<in> set ascii_lowercase"
  using ascii_upper_cases [of c] alphabet_facts(4,5,7)
  by (auto simp: in_set_conv_nth)

lemma upper_digit_iff: "ascii_upper c \<in> set digits \<longleftrightarrow> c \<in> set digits"
proof -
  have "ascii_uppercase ! i \<notin> set digits" if "i < 26" for i
    using that alphabet_facts(4,9) by (metis disjoint_iff nth_mem)
  moreover have "ascii_lowercase ! i \<notin> set digits" if "i < 26" for i
    using that alphabet_facts(5,8) by (metis disjoint_iff nth_mem)
  ultimately show ?thesis using ascii_upper_cases [of c] by auto
qed

lemma ascii_upper_ascii: "c < 128 \<Longrightarrow> ascii_upper c < 128"
proof -
  assume c: "c < 128"
  from ascii_upper_cases [of c] show ?thesis
  proof
    assume "c \<notin> set ascii_lowercase \<and> ascii_upper c = c"
    with c show ?thesis by simp
  next
    assume "\<exists>i<26. c = ascii_lowercase ! i \<and> ascii_upper c = ascii_uppercase ! i"
    then obtain i where i: "i < 26" "ascii_upper c = ascii_uppercase ! i" by blast
    from i(1) have "ascii_uppercase ! i \<in> set ascii_uppercase" by (simp add: alphabet_facts)
    then have "ascii_uppercase ! i < 128" by (rule alphabet_ascii)
    with i(2) show ?thesis by simp
  qed
qed

lemma upper_ascii: "\<forall>c\<in>set line. c < 128 \<Longrightarrow> upper U line = map ascii_upper line"
  by (induction line) (simp_all add: upper_def char_upper_def)

lemma py_int_Inl: "py_int U c = Inl e \<Longrightarrow> e = ValueError"
  by (auto simp: py_int_def split: if_splits option.splits dest: str_index_Inl)

lemma parse_shot_Inl: "parse_shot U line = Inl e \<Longrightarrow> e = ValueError"
  unfolding parse_shot_def
  by (auto split: list.splits if_splits sum.splits dest: str_index_Inl py_int_Inl)

lemma parse_shot_upper:
  "upper U line = [y, x] \<Longrightarrow>
     parse_shot U line =
       (if y \<in> set ascii_uppercase \<and> isdigit U x
        then (case (str_index ascii_uppercase y, py_int U x) of
                (Inr row, Inr v) \<Rightarrow> Inr (row, v - 1)
              | _ \<Rightarrow> Inl ValueError)
        else Inl ValueError)"
  by (auto simp: parse_shot_def split: sum.splits dest: str_index_Inl py_int_Inl)

lemma parse_shot_not_two:
  "(\<nexists>y x. upper U line = [y, x]) \<Longrightarrow> parse_shot U line = Inl ValueError"
  by (auto simp: parse_shot_def split: list.splits)

lemma parse_shot_Inr_iff:
  "parse_shot U line = Inr (row, col) \<longleftrightarrow>
     (\<exists>i<26. \<exists>x v. upper U line = [ascii_uppercase ! i, x] \<and> isdigit U x \<and>
        py_int U x = Inr v \<and> row = int i \<and> col = v - 1)"
proof
  assume p: "parse_shot U line = Inr (row, col)"
  then obtain y x where u: "upper U line = [y, x]"
    using parse_shot_not_two [of U line] by auto
  from p [unfolded parse_shot_upper [OF u]]
  have y: "y \<in> set ascii_uppercase" and x: "isdigit U x"
    and r: "(case (str_index ascii_uppercase y, py_int U x) of
                (Inr row, Inr v) \<Rightarrow> Inr (row, v - 1)
              | _ \<Rightarrow> Inl ValueError) = Inr (row, col)"
    by (auto split: if_splits)
  from y obtain i where i: "i < 26" "y = ascii_uppercase ! i"
    by (auto simp: in_set_conv_nth alphabet_facts)
  then have si: "str_index ascii_uppercase y = Inr (int i)"
    by (simp add: str_index_nth alphabet_facts)
  from r si obtain v where "py_int U x = Inr v" "row = int i" "col = v - 1"
    by (auto split: sum.splits)
  with u i x show "\<exists>i<26. \<exists>x v. upper U line = [ascii_uppercase ! i, x] \<and> isdigit U x \<and>
        py_int U x = Inr v \<and> row = int i \<and> col = v - 1" by blast
next
  assume "\<exists>i<26. \<exists>x v. upper U line = [ascii_uppercase ! i, x] \<and> isdigit U x \<and>
        py_int U x = Inr v \<and> row = int i \<and> col = v - 1"
  then obtain i x v where i: "i < 26" and u: "upper U line = [ascii_uppercase ! i, x]"
    and x: "isdigit U x" "py_int U x = Inr v" and rc: "row = int i" "col = v - 1" by blast
  from i have "ascii_uppercase ! i \<in> set ascii_uppercase" by (simp add: alphabet_facts)
  moreover from i have "str_index ascii_uppercase (ascii_uppercase ! i) = Inr (int i)"
    by (simp add: str_index_nth alphabet_facts)
  ultimately show "parse_shot U line = Inr (row, col)"
    unfolding parse_shot_upper [OF u] using x rc by simp
qed

lemma parse_shot_ascii_iff:
  assumes "\<forall>c\<in>set line. c < 128"
  shows "parse_shot U line = Inr (row, col) \<longleftrightarrow>
     (\<exists>i<26. \<exists>d<10.
        (line = [ascii_uppercase ! i, digits ! d] \<or> line = [ascii_lowercase ! i, digits ! d]) \<and>
        row = int i \<and> col = int d - 1)"
proof
  assume p: "parse_shot U line = Inr (row, col)"
  from p [unfolded parse_shot_Inr_iff] obtain i x v where i: "i < 26"
    and u: "upper U line = [ascii_uppercase ! i, x]" and x: "isdigit U x" "py_int U x = Inr v"
    and rc: "row = int i" "col = v - 1" by blast
  from u upper_ascii [OF assms, of U] have m: "map ascii_upper line = [ascii_uppercase ! i, x]"
    by simp
  then obtain a c where line: "line = [a, c]" and a: "ascii_upper a = ascii_uppercase ! i"
    and c: "ascii_upper c = x" by auto
  from assms line have ac: "a < 128" "c < 128" by simp_all
  from ascii_upper_ascii [OF ac(2)] c have x128: "x < 128" by simp
  with x have xd: "x \<in> set digits" and xv: "str_index digits x = Inr v"
    by (simp_all add: isdigit_def py_int_def)
  from xd c have cd: "c \<in> set digits" using upper_digit_iff [of c] by simp
  then have "c \<notin> set ascii_lowercase" using alphabet_facts(8) by blast
  then have cx: "c = x" using c by (simp add: ascii_upper_other)
  from cd obtain d where d: "d < 10" "c = digits ! d"
    by (auto simp: in_set_conv_nth alphabet_facts)
  have "str_index digits (digits ! d) = Inr (int d)"
    using d(1) by (simp add: str_index_nth alphabet_facts)
  with xv cx d(2) have "v = int d" by simp
  with rc have col: "col = int d - 1" by simp
  have "a = ascii_uppercase ! i \<or> a = ascii_lowercase ! i"
    using ascii_upper_cases [of a]
  proof
    assume "a \<notin> set ascii_lowercase \<and> ascii_upper a = a"
    with a show ?thesis by simp
  next
    assume "\<exists>j<26. a = ascii_lowercase ! j \<and> ascii_upper a = ascii_uppercase ! j"
    then obtain j where j: "j < 26" "a = ascii_lowercase ! j" "ascii_upper a = ascii_uppercase ! j"
      by blast
    with a i have "j = i" using alphabet_facts(1,4) by (simp add: nth_eq_iff_index_eq)
    with j show ?thesis by simp
  qed
  with line d i rc col show "\<exists>i<26. \<exists>d<10.
        (line = [ascii_uppercase ! i, digits ! d] \<or> line = [ascii_lowercase ! i, digits ! d]) \<and>
        row = int i \<and> col = int d - 1" by blast
next
  assume "\<exists>i<26. \<exists>d<10.
        (line = [ascii_uppercase ! i, digits ! d] \<or> line = [ascii_lowercase ! i, digits ! d]) \<and>
        row = int i \<and> col = int d - 1"
  then obtain i d where i: "i < 26" and d: "d < 10"
    and line: "line = [ascii_uppercase ! i, digits ! d] \<or> line = [ascii_lowercase ! i, digits ! d]"
    and rc: "row = int i" "col = int d - 1" by blast
  have dg: "digits ! d \<in> set digits" using d by (simp add: alphabet_facts)
  then have d128: "digits ! d < 128" by (rule alphabet_ascii)
  from dg have "digits ! d \<notin> set ascii_lowercase" using alphabet_facts(8) by blast
  then have ud: "ascii_upper (digits ! d) = digits ! d" by (rule ascii_upper_other)
  have u: "ascii_uppercase ! i \<in> set ascii_uppercase" using i by (simp add: alphabet_facts)
  then have "ascii_uppercase ! i \<notin> set ascii_lowercase" using alphabet_facts(7) by blast
  then have uu: "ascii_upper (ascii_uppercase ! i) = ascii_uppercase ! i" by (rule ascii_upper_other)
  have ul: "ascii_upper (ascii_lowercase ! i) = ascii_uppercase ! i" by (rule ascii_upper_lower [OF i])
  from line have "map ascii_upper line = [ascii_uppercase ! i, digits ! d]"
    using uu ul ud by auto
  with upper_ascii [OF assms, of U] have up: "upper U line = [ascii_uppercase ! i, digits ! d]"
    by simp
  have "isdigit U (digits ! d)" using dg d128 by (simp add: isdigit_def)
  moreover have "py_int U (digits ! d) = Inr (int d)"
    using d d128 by (simp add: py_int_def str_index_nth alphabet_facts)
  ultimately show "parse_shot U line = Inr (row, col)"
    unfolding parse_shot_Inr_iff using up i rc by blast
qed

text \<open>
  C10, as the code has it. The lines that reach \<open>hit\<close> are exactly those whose upper case
  form is two characters, an upper case letter of ASCII followed by a character that
  \<open>isdigit\<close> accepts and \<open>int\<close> converts; the row is the position of the letter in the
  alphabet and the column the value of the digit less one. Among the lines of ASCII
  characters these are exactly a letter, upper or lower case, followed by one digit, and
  no line of ASCII characters of another length reaches \<open>hit\<close>. Every line that does not
  reach \<open>hit\<close> is refused and the prompt comes again; so is a line for which \<open>hit\<close> raises
  \<open>IndexBoardError\<close> or \<open>ShootError\<close>; and when \<open>hit\<close> returns, \<open>shoot\<close> returns its value.
\<close>

theorem Human_shoot_accepts_letter_digit:
  "(parse_shot U line = Inr (row, col) \<longleftrightarrow>
      (\<exists>i<26. \<exists>x v. upper U line = [ascii_uppercase ! i, x] \<and> isdigit U x \<and>
         py_int U x = Inr v \<and> row = int i \<and> col = v - 1)) \<and>
   ((\<forall>c\<in>set line. c < 128) \<longrightarrow>
      (parse_shot U line = Inr (row, col) \<longleftrightarrow>
         (\<exists>i<26. \<exists>d<10.
            (line = [ascii_uppercase ! i, digits ! d] \<or> line = [ascii_lowercase ! i, digits ! d]) \<and>
            row = int i \<and> col = int d - 1))) \<and>
   ((\<forall>c\<in>set line. c < 128) \<and> length line \<noteq> 2 \<longrightarrow> parse_shot U line = Inl ValueError) \<and>
   ((\<forall>rc. parse_shot U line \<noteq> Inr rc) \<longrightarrow>
      Human_shoot U b (line # ls) = drop_result (Human_shoot U b ls)) \<and>
   (parse_shot U line = Inr (row, col) \<and>
    (fst (hit b row col) = Inl IndexBoardError \<or> fst (hit b row col) = Inl ShootError) \<longrightarrow>
      Human_shoot U b (line # ls) = drop_result (Human_shoot U b ls)) \<and>
   (parse_shot U line = Inr (row, col) \<and> hit b row col = (Inr (res, msg), b') \<longrightarrow>
      Human_shoot U b (line # ls) = Some (Inr (PyBool res), b', ls))"
proof -
  have a: "(\<forall>c\<in>set line. c < 128) \<longrightarrow>
      (parse_shot U line = Inr (row, col) \<longleftrightarrow>
         (\<exists>i<26. \<exists>d<10.
            (line = [ascii_uppercase ! i, digits ! d] \<or> line = [ascii_lowercase ! i, digits ! d]) \<and>
            row = int i \<and> col = int d - 1))"
    using parse_shot_ascii_iff [of line U row col] by blast
  have n: "parse_shot U line = Inl ValueError"
    if asc: "\<forall>c\<in>set line. c < 128" and len: "length line \<noteq> 2"
  proof (cases "parse_shot U line")
    case (Inl e)
    with parse_shot_Inl [OF Inl] show ?thesis by simp
  next
    case (Inr rc)
    obtain r c where "rc = (r, c)" by (cases rc)
    with Inr parse_shot_ascii_iff [OF asc, of U r c] have "length line = 2" by auto
    with len show ?thesis by simp
  qed
  have c: "Human_shoot U b (line # ls) = drop_result (Human_shoot U b ls)"
    if "\<forall>rc. parse_shot U line \<noteq> Inr rc"
  proof -
    from that obtain e where e: "parse_shot U line = Inl e"
      by (cases "parse_shot U line") auto
    with parse_shot_Inl [OF e] show ?thesis by simp
  qed
  have d: "Human_shoot U b (line # ls) = drop_result (Human_shoot U b ls)"
    if p: "parse_shot U line = Inr (row, col)"
      and h: "fst (hit b row col) = Inl IndexBoardError \<or> fst (hit b row col) = Inl ShootError"
  proof -
    from h obtain e where e: "fst (hit b row col) = Inl e" "e = IndexBoardError \<or> e = ShootError"
      by blast
    from hit_error_keeps_board [OF e(1)] e(1) have "hit b row col = (Inl e, b)"
      by (simp add: prod_eq_iff)
    with p e(2) show ?thesis by auto
  qed
  have s: "Human_shoot U b (line # ls) = Some (Inr (PyBool res), b', ls)"
    if "parse_shot U line = Inr (row, col)" and "hit b row col = (Inr (res, msg), b')"
    using that by simp
  from a n c d s parse_shot_Inr_iff [of U line row col]
  show ?thesis by blast
qed

lemma sample_lines:
  "parse_shot sample_tables (ascii_str ''a1'') = Inr (0, 0)"
  "parse_shot sample_tables [305, 49] = Inr (8, 0)"
  "parse_shot sample_tables [383, 49] = Inr (18, 0)"
  "parse_shot sample_tables [97, 1635] = Inr (0, 2)"
  by code_simp+

theorem Human_shoot_accepts_letter_digit_witness:
  "parse_shot sample_tables (ascii_str ''a1'') = Inr (0, 0) \<and>
   Human_shoot sample_tables demo_board [ascii_str ''a1''] =
     Some (Inr (PyBool True), demo_board_hit, []) \<and>
   parse_shot sample_tables (ascii_str ''A10'') = Inl ValueError \<and>
   parse_shot sample_tables [305, 49] = Inr (8, 0) \<and>
   parse_shot sample_tables [97, 1635] = Inr (0, 2)"
proof -
  have h: "hit demo_board 0 0 = (Inr (True, Ranen), demo_board_hit)" by (rule demo_board_hit_eval)
  have asc: "\<forall>c\<in>set (ascii_str ''A10''). c < 128" by (simp add: ascii_str_def)
  have len: "length (ascii_str ''A10'') \<noteq> 2" by (simp add: ascii_str_def)
  from Human_shoot_accepts_letter_digit
      [of sample_tables "ascii_str ''a1''" 0 0 demo_board "[]" True Ranen demo_board_hit]
    sample_lines(1) h
  have 1: "Human_shoot sample_tables demo_board [ascii_str ''a1''] =
     Some (Inr (PyBool True), demo_board_hit, [])" by blast
  from Human_shoot_accepts_letter_digit [of sample_tables "ascii_str ''A10''"] asc len
  have 2: "parse_shot sample_tables (ascii_str ''A10'') = Inl ValueError" by blast
  from 1 2 sample_lines show ?thesis by blast
qed

text \<open>
  C10 as stated fails at the line \<open>A10\<close>: the unpacking into two characters raises
  \<open>ValueError\<close>, the line is refused and the next line is read; with \<open>a1\<close> as the next
  line the shot goes to row 0, column 0, and \<open>shoot\<close> returns \<open>None\<close>.
\<close>

theorem Human_shoot_refuses_A10_counterexample:
  "parse_shot sample_tables (ascii_str ''A10'') = Inl ValueError \<and>
   Human_shoot sample_tables demo_board [ascii_str ''A10''] = None \<and>
   Human_shoot sample_tables demo_board [ascii_str ''A10'', ascii_str ''a1''] =
     Some (Inr PyNone, demo_board_hit, [])"
  by code_simp

end
